theory Spec2Isabelle
  imports Complex_Main "HOL-Library.Log_Nat"
begin

section \<open>The hub timer: \<open>_async_create_timer\<close> of engine/core/core.py\<close>

text \<open>
  The source is one function, \<open>_async_create_timer(hass)\<close>, that creates two closure
  cells (\<open>handle\<close>, \<open>timer_context\<close>) and three inner functions over them:
  \<open>schedule_tick\<close>, \<open>fire_time_event\<close> and \<open>stop_timer\<close>.

  Modelling decisions:
  \<^item> The closure cells and the hub they capture are one record, passed explicitly and
    returned updated.
  \<^item> A Python \<open>float\<close> is an IEEE binary64 number. A finite one is a rational, and
    \<open>+\<close>, \<open>-\<close> and \<open>/\<close> give the exact result rounded to the nearest binary64 number,
    ties to even (\<open>binary64\<close> below); \<open>>\<close> compares exactly. Infinities and NaN are
    not represented: the rounding has no largest exponent, so the model is that of the
    program as long as no result exceeds the largest double.
  \<^item> The readings of the clocks (\<open>dt_util.utcnow()\<close>, \<open>monotonic()\<close>) and the fresh
    identifier of \<open>Context()\<close> are inputs of the function that reads them, in the
    order of the reads in the source.
  \<^item> The timer handles of the event loop are objects shared between the loop and the
    closure cell \<open>handle\<close>; they live in a table of the loop and \<open>handle\<close> holds an
    index into it (\<open>None\<close> for Python's \<open>None\<close>).
\<close>

subsection \<open>Data\<close>

type_synonym pyfloat = rat

subsection \<open>Binary64 arithmetic\<close>

text \<open>Powers of two with an integer exponent.\<close>

definition pow2 :: "int \<Rightarrow> rat" where
  "pow2 k = (if 0 \<le> k then 2 ^ nat k else 1 / 2 ^ nat (- k))"

text \<open>
  The binary exponent of a positive rational \<open>x\<close>, that is the \<open>e\<close> with
  \<open>2^e \<le> x < 2^(e+1)\<close>, from the bit length of \<open>\<lfloor>x\<rfloor>\<close> or of \<open>\<lceil>1/x\<rceil> - 1\<close>.
\<close>

definition ilog2 :: "rat \<Rightarrow> int" where
  "ilog2 x = (if 1 \<le> x then bitlen \<lfloor>x\<rfloor> - 1 else - bitlen (\<lceil>1 / x\<rceil> - 1))"

text \<open>Rounding to the nearest integer, a tie to the even neighbour.\<close>

definition round_half_even :: "rat \<Rightarrow> int" where
  "round_half_even q =
     (let f = \<lfloor>q\<rfloor>; r = q - of_int f
      in if r < 1 / 2 then f
         else if 1 / 2 < r then f + 1
         else if even f then f else f + 1)"

text \<open>
  Rounding to binary64: 53 significant bits, so the spacing of the doubles around \<open>x\<close>
  is \<open>2^(e-52)\<close> for the binary exponent \<open>e\<close> of \<open>x\<close>, and \<open>2^(-1074)\<close> in the subnormal
  range below \<open>2^(-1022)\<close>.
\<close>

definition binary64 :: "rat \<Rightarrow> pyfloat" where
  "binary64 x =
     (if x = 0 then 0
      else let e = max (ilog2 \<bar>x\<bar>) (- 1022);
               q = pow2 (e - 52)
           in of_int (round_half_even (x / q)) * q)"

text \<open>
  Python's \<open>a + b\<close> and \<open>a - b\<close> on floats (an \<open>int\<close> operand such as \<open>1\<close> is converted
  exactly), and \<open>a / b\<close> on two integers, which Python rounds correctly from the exact
  quotient. The divisor of the source is the constant \<open>10 ** 6\<close>, so no division by
  zero arises.
\<close>

definition float_add :: "pyfloat \<Rightarrow> pyfloat \<Rightarrow> pyfloat" where
  "float_add a b = binary64 (a + b)"

definition float_sub :: "pyfloat \<Rightarrow> pyfloat \<Rightarrow> pyfloat" where
  "float_sub a b = binary64 (a - b)"

definition float_div :: "rat \<Rightarrow> rat \<Rightarrow> pyfloat" where
  "float_div a b = binary64 (a / b)"

text \<open>
  A point in time as \<open>dt_util.utcnow()\<close> returns it. The source reads only the field
  \<open>microsecond\<close>; the other fields of the date (year to second) are kept as one count
  of whole seconds.
\<close>

record Date =
  whole_second :: int
  microsecond :: nat

text \<open>Python keeps \<open>microsecond\<close> of every datetime in \<open>range(1000000)\<close>.\<close>

definition Date_ok :: "Date \<Rightarrow> bool" where
  "Date_ok d = (microsecond d < 10 ^ 6)"

text \<open>The time of a date in seconds, with its sub-second part.\<close>

definition timestamp :: "Date \<Rightarrow> rat" where
  "timestamp d = of_int (whole_second d) + of_nat (microsecond d) / 10 ^ 6"

text \<open>
  Modelled from the spec: the class \<open>Context\<close> is not in the source file. The spec's data
  model gives it an opaque unique identifier and an optional parent identifier.
\<close>

record Context =
  context_id :: nat
  parent_id :: "nat option"

text \<open>
  Modelled from the spec: \<open>Context()\<close> with no argument makes a root context; its
  identifier is generated outside the program and is an input here.
\<close>

definition new_Context :: "nat \<Rightarrow> Context" where
  "new_Context uuid = \<lparr>context_id = uuid, parent_id = None\<rparr>"

datatype EventOrigin = LOCAL | REMOTE

text \<open>The values the timer puts into the data mapping of an event.\<close>

datatype data_value = DateValue Date | FloatValue pyfloat

text \<open>
  Modelled from the spec: the class \<open>Event\<close> is not in the source file. The spec's data
  model gives it a type, a data mapping, an origin, the time it was fired and a context.
\<close>

record Event =
  event_type :: string
  data :: "string \<rightharpoonup> data_value"
  origin :: EventOrigin
  time_fired :: Date
  event_context :: Context

text \<open>The functions the source hands to the event loop and to the bus.\<close>

datatype loop_callback = FireTimeEvent

datatype bus_callback = StopTimer

text \<open>
  A handle as \<open>loop.call_later(delay, callback, arg)\<close> returns it: what was scheduled,
  whether \<open>cancel()\<close> was called on it, and whether the loop has run it.
\<close>

record TimerHandle =
  th_delay :: pyfloat
  th_callback :: loop_callback
  th_arg :: pyfloat
  th_cancelled :: bool
  th_ran :: bool

record Listener =
  ls_event_type :: string
  ls_callback :: bus_callback
  ls_once :: bool

text \<open>
  The parts of the hub the timer touches: the events fired on the bus (in order), the
  listeners registered on the bus, the handles of the event loop, and the lines logged at
  level info.
\<close>

record HomeAssistant =
  bus_fired :: "Event list"
  bus_listeners :: "Listener list"
  loop_handles :: "TimerHandle list"
  logger_info :: "string list"

text \<open>The closure of \<open>_async_create_timer\<close>: its two cells and the hub it captured.\<close>

record timer =
  handle :: "nat option"
  timer_context :: Context
  hass :: HomeAssistant

datatype py_error = AttributeError

subsection \<open>Constants of \<open>homeassistant.const\<close>\<close>

text \<open>
  Modelled from the spec: the module \<open>homeassistant.const\<close> is not in the source. The
  spec names the event types \<open>time_changed\<close>, \<open>timer_out_of_sync\<close> and
  \<open>homeassistant_stop\<close> and the data keys \<open>now\<close> and \<open>seconds\<close>.
\<close>

definition EVENT_TIME_CHANGED :: string where
  "EVENT_TIME_CHANGED = ''time_changed''"

definition EVENT_TIMER_OUT_OF_SYNC :: string where
  "EVENT_TIMER_OUT_OF_SYNC = ''timer_out_of_sync''"

definition EVENT_HOMEASSISTANT_STOP :: string where
  "EVENT_HOMEASSISTANT_STOP = ''homeassistant_stop''"

definition ATTR_NOW :: string where
  "ATTR_NOW = ''now''"

definition ATTR_SECONDS :: string where
  "ATTR_SECONDS = ''seconds''"

subsection \<open>The collaborators: bus and event loop\<close>

text \<open>
  Modelled from the spec: \<open>hass.bus.async_fire\<close> is not in the source. The spec's
  \<open>publish\<close> constructs the event from its arguments, with origin \<open>LOCAL\<close> when none is
  given, and publishes it; the model records the event as the last one fired.
\<close>

definition async_fire ::
  "string \<Rightarrow> (string \<rightharpoonup> data_value) \<Rightarrow> Date \<Rightarrow> Context \<Rightarrow> HomeAssistant \<Rightarrow> HomeAssistant" where
  "async_fire etype edata tfired ctx h =
     h\<lparr>bus_fired := bus_fired h @
        [\<lparr>event_type = etype, data = edata, origin = LOCAL,
          time_fired = tfired, event_context = ctx\<rparr>]\<rparr>"

text \<open>
  Modelled from the spec: \<open>hass.bus.async_listen_once\<close> is not in the source. The spec's
  \<open>subscribe\<close> with \<open>once\<close> set registers a listener that is removed after it fired once.
\<close>

definition async_listen_once :: "string \<Rightarrow> bus_callback \<Rightarrow> HomeAssistant \<Rightarrow> HomeAssistant" where
  "async_listen_once etype cb h =
     h\<lparr>bus_listeners := bus_listeners h @
        [\<lparr>ls_event_type = etype, ls_callback = cb, ls_once = True\<rparr>]\<rparr>"

text \<open>
  \<open>loop.call_later(delay, callback, arg)\<close> of the event loop: a new handle, neither
  cancelled nor run, is added to the loop and returned (as its index in the table).
\<close>

definition call_later ::
  "pyfloat \<Rightarrow> loop_callback \<Rightarrow> pyfloat \<Rightarrow> HomeAssistant \<Rightarrow> nat \<times> HomeAssistant" where
  "call_later delay cb arg h =
     (length (loop_handles h),
      h\<lparr>loop_handles := loop_handles h @
        [\<lparr>th_delay = delay, th_callback = cb, th_arg = arg,
          th_cancelled = False, th_ran = False\<rparr>]\<rparr>)"

text \<open>
  The method call \<open>handle.cancel()\<close> on the value of the cell \<open>handle\<close>. On \<open>None\<close>
  Python raises \<open>AttributeError\<close>. On a handle it sets the handle's cancelled flag,
  whatever the state of the handle. A reference returned by \<open>call_later\<close> always points
  into the table; an index outside it denotes no object and nothing is changed.
\<close>

definition cancel :: "nat option \<Rightarrow> HomeAssistant \<Rightarrow> py_error + HomeAssistant" where
  "cancel ref h =
     (case ref of
        None \<Rightarrow> Inl AttributeError
      | Some i \<Rightarrow>
          if i < length (loop_handles h)
          then Inr (h\<lparr>loop_handles :=
                 (loop_handles h)[i := (loop_handles h ! i)\<lparr>th_cancelled := True\<rparr>]\<rparr>)
          else Inr h)"

text \<open>A handle is pending while the loop may still run it.\<close>

definition pending :: "TimerHandle \<Rightarrow> bool" where
  "pending th = (\<not> th_cancelled th \<and> \<not> th_ran th)"

subsection \<open>The three inner functions\<close>

text \<open>
  \<open>schedule_tick(now)\<close>. The first argument is the reading of \<open>monotonic()\<close> on source
  line 98.
\<close>

definition schedule_tick :: "pyfloat \<Rightarrow> Date \<Rightarrow> timer \<Rightarrow> timer" where
  "schedule_tick monotonic_v now s =
     (let slp_seconds = float_sub 1 (float_div (of_nat (microsecond now)) (10 ^ 6));
          target = float_add monotonic_v slp_seconds;
          (h, hass') = call_later slp_seconds FireTimeEvent target (hass s)
      in s\<lparr>handle := Some h, hass := hass'\<rparr>)"

text \<open>
  \<open>fire_time_event(target)\<close>. The first three arguments are the readings of
  \<open>dt_util.utcnow()\<close> (line 104), of \<open>monotonic()\<close> on line 111 and of \<open>monotonic()\<close>
  inside the call of \<open>schedule_tick\<close> on line 120.
\<close>

definition fire_time_event :: "Date \<Rightarrow> pyfloat \<Rightarrow> pyfloat \<Rightarrow> pyfloat \<Rightarrow> timer \<Rightarrow> timer" where
  "fire_time_event utcnow_v monotonic_v1 monotonic_v2 target s =
     (let now = utcnow_v;
          s1 = s\<lparr>hass := async_fire EVENT_TIME_CHANGED [ATTR_NOW \<mapsto> DateValue now]
                             now (timer_context s) (hass s)\<rparr>;
          late = float_sub monotonic_v1 target;
          s2 = (if late > 1
                then s1\<lparr>hass := async_fire EVENT_TIMER_OUT_OF_SYNC
                                   [ATTR_SECONDS \<mapsto> FloatValue late]
                                   now (timer_context s1) (hass s1)\<rparr>
                else s1)
      in schedule_tick monotonic_v2 now s2)"

text \<open>\<open>stop_timer(_)\<close>: the event it is called with is not read.\<close>

definition stop_timer :: "Event \<Rightarrow> timer \<Rightarrow> py_error + timer" where
  "stop_timer ev s =
     (if handle s \<noteq> None
      then (case cancel (handle s) (hass s) of
              Inl e \<Rightarrow> Inl e
            | Inr hass' \<Rightarrow> Inr (s\<lparr>hass := hass'\<rparr>))
      else Inr s)"

subsection \<open>Creating the timer\<close>

text \<open>
  \<open>_async_create_timer(hass)\<close>. The arguments before the hub are the identifier
  generated for \<open>Context()\<close> (line 91), the reading of \<open>dt_util.utcnow()\<close> on line 131 and
  the reading of \<open>monotonic()\<close> inside that first call of \<open>schedule_tick\<close>.
\<close>

definition async_create_timer :: "nat \<Rightarrow> Date \<Rightarrow> pyfloat \<Rightarrow> HomeAssistant \<Rightarrow> timer" where
  "async_create_timer uuid utcnow_v monotonic_v hass0 =
     (let s0 = \<lparr>handle = None, timer_context = new_Context uuid, hass = hass0\<rparr>;
          s1 = s0\<lparr>hass := async_listen_once EVENT_HOMEASSISTANT_STOP StopTimer (hass s0)\<rparr>;
          s2 = s1\<lparr>hass := (hass s1)\<lparr>logger_info :=
                                logger_info (hass s1) @ [''Timer:starting'']\<rparr>\<rparr>
      in schedule_tick monotonic_v utcnow_v s2)"

subsection \<open>The event loop running a handle\<close>

text \<open>The three clock readings of one call of \<open>fire_time_event\<close>.\<close>

record clock_reads =
  utcnow :: Date
  monotonic_1 :: pyfloat
  monotonic_2 :: pyfloat

text \<open>
  A wake-up: the event loop reaches handle \<open>i\<close>. A handle that was cancelled or has run
  is skipped; otherwise the handle has run from now on and its callback is called with
  its argument.
\<close>

definition run_handle :: "nat \<Rightarrow> clock_reads \<Rightarrow> timer \<Rightarrow> timer" where
  "run_handle i r s =
     (if i < length (loop_handles (hass s)) \<and> pending (loop_handles (hass s) ! i)
      then (let th = loop_handles (hass s) ! i;
                s' = s\<lparr>hass := (hass s)\<lparr>loop_handles :=
                          (loop_handles (hass s))[i := th\<lparr>th_ran := True\<rparr>]\<rparr>\<rparr>
            in case th_callback th of
                 FireTimeEvent \<Rightarrow>
                   fire_time_event (utcnow r) (monotonic_1 r) (monotonic_2 r) (th_arg th) s')
      else s)"

text \<open>A run of the loop: one wake-up after the other.\<close>

fun run_ticks :: "(nat \<times> clock_reads) list \<Rightarrow> timer \<Rightarrow> timer" where
  "run_ticks [] s = s"
| "run_ticks ((i, r) # rest) s = run_ticks rest (run_handle i r s)"

subsection \<open>Observations\<close>

text \<open>The events fired between an earlier hub \<open>h\<close> and a later state \<open>s'\<close>.\<close>

definition new_events :: "HomeAssistant \<Rightarrow> timer \<Rightarrow> Event list" where
  "new_events h s' = drop (length (bus_fired h)) (bus_fired (hass s'))"

text \<open>The indices of the handles of the loop that are pending.\<close>

definition pending_handles :: "HomeAssistant \<Rightarrow> nat list" where
  "pending_handles h = filter (\<lambda>i. pending (loop_handles h ! i)) [0..<length (loop_handles h)]"

text \<open>The number an event carries under the key \<open>seconds\<close>, if any.\<close>

definition seconds_of :: "Event \<Rightarrow> pyfloat option" where
  "seconds_of e =
     (case data e ATTR_SECONDS of Some (FloatValue x) \<Rightarrow> Some x | _ \<Rightarrow> None)"

subsection \<open>A concrete hub and timer\<close>

text \<open>
  An empty hub; a timer created on it at 03:04:05.5 of a day, with the monotonic clock
  at 10 (so the first wake-up is due in half a second, at monotonic time 10.5); the
  double that Python reads as \<open>11.8\<close>; and the clock readings of a wake-up that happens
  at that monotonic time, with the next tick scheduled at monotonic time 11.8125.
\<close>

definition hub0 :: HomeAssistant where
  "hub0 = \<lparr>bus_fired = [], bus_listeners = [], loop_handles = [], logger_info = []\<rparr>"

definition T0 :: Date where
  "T0 = \<lparr>whole_second = 1546225445, microsecond = 500000\<rparr>"

definition T1 :: Date where
  "T1 = \<lparr>whole_second = 1546225447, microsecond = 300000\<rparr>"

definition timer0 :: timer where
  "timer0 = async_create_timer 1 T0 10 hub0"

definition mono_11_8 :: pyfloat where
  "mono_11_8 = 3321404725185741 / 281474976710656"

definition reads1 :: clock_reads where
  "reads1 = \<lparr>utcnow = T1, monotonic_1 = mono_11_8, monotonic_2 = 189 / 16\<rparr>"

text \<open>
  The clock readings of a second wake-up, at monotonic time 12.625, a little more than
  a tenth of a second late; the event the hub
  fires when it stops; and a timer closure whose cell \<open>handle\<close> is still \<open>None\<close>.
\<close>

definition reads2 :: clock_reads where
  "reads2 = \<lparr>utcnow = \<lparr>whole_second = 1546225448, microsecond = 100\<rparr>,
              monotonic_1 = 101 / 8, monotonic_2 = 101 / 8\<rparr>"

definition stop_event :: Event where
  "stop_event = \<lparr>event_type = EVENT_HOMEASSISTANT_STOP, data = Map.empty, origin = LOCAL,
                  time_fired = T1, event_context = new_Context 2\<rparr>"

definition idle_timer :: timer where
  "idle_timer = \<lparr>handle = None, timer_context = new_Context 1, hass = hub0\<rparr>"

subsection \<open>The invariant of the cell \<open>handle\<close>\<close>

text \<open>
  The loop has a handle, the cell \<open>handle\<close> refers to the last one scheduled, and that
  handle is the only one pending.
\<close>

definition timer_inv :: "timer \<Rightarrow> bool" where
  "timer_inv s =
     (let L = loop_handles (hass s)
      in L \<noteq> [] \<and> handle s = Some (length L - 1) \<and>
         (\<forall>j < length L. pending (L ! j) = (j = length L - 1)))"

text \<open>
  The part of it that needs no assumption on the other handles of the loop: the cell
  \<open>handle\<close> refers to the handle scheduled last, and that handle is pending.
\<close>

definition handle_latest :: "timer \<Rightarrow> bool" where
  "handle_latest s =
     (let L = loop_handles (hass s)
      in L \<noteq> [] \<and> handle s = Some (length L - 1) \<and> pending (L ! (length L - 1)))"

section \<open>Basic facts\<close>

subsection \<open>Rounding to binary64\<close>

lemma pow2_pos [simp]: "0 < pow2 k"
  by (simp add: pow2_def)

lemma pow2_nonzero [simp]: "pow2 k \<noteq> 0"
  by (simp add: pow2_def)

lemma pow2_Suc: "pow2 (k + 1) = 2 * pow2 k"
proof (cases "0 \<le> k")
  case True
  then show ?thesis by (simp add: pow2_def nat_add_distrib)
next
  case False
  then have "nat (- k) = Suc (nat (- (k + 1)))" by simp
  then show ?thesis using False by (simp add: pow2_def)
qed

lemma pow2_add_nat: "pow2 (k + int n) = 2 ^ n * pow2 k"
proof (induction n)
  case 0
  show ?case by simp
next
  case (Suc n)
  have "k + int (Suc n) = (k + int n) + 1" by simp
  then have "pow2 (k + int (Suc n)) = 2 * pow2 (k + int n)" by (simp only: pow2_Suc)
  then show ?case by (simp add: Suc.IH)
qed

lemma pow2_mono: "a \<le> b \<Longrightarrow> pow2 a \<le> pow2 b"
proof -
  assume "a \<le> b"
  then obtain n where b: "b = a + int n" by (metis zle_iff_zadd)
  have "(1::rat) \<le> 2 ^ n" by simp
  then have "1 * pow2 a \<le> 2 ^ n * pow2 a"
    by (rule mult_right_mono) (simp add: less_imp_le)
  then show ?thesis by (simp add: b pow2_add_nat)
qed

lemma ilog2_bounds:
  assumes "0 < x"
  shows "pow2 (ilog2 x) \<le> x \<and> x < pow2 (ilog2 x + 1)"
proof (cases "1 \<le> x")
  case True
  define n where "n = \<lfloor>x\<rfloor>"
  have n: "0 < n" using True by (simp add: n_def)
  have b: "2 ^ nat (bitlen n - 1) \<le> n \<and> n < 2 ^ nat (bitlen n)"
    using bitlen_bounds [OF n] .
  have bl: "1 \<le> bitlen n" using n by (simp add: bitlen_alt_def)
  have e: "ilog2 x = bitlen n - 1" using True by (simp add: ilog2_def n_def)
  have "(of_int (2 ^ nat (bitlen n - 1)) :: rat) \<le> of_int n"
    using b by (simp only: of_int_le_iff)
  then have "(2 ^ nat (bitlen n - 1) :: rat) \<le> of_int n" by simp
  also have "\<dots> \<le> x" by (simp add: n_def)
  finally have 1: "pow2 (ilog2 x) \<le> x" using bl by (simp add: e pow2_def)
  have "n + 1 \<le> 2 ^ nat (bitlen n)" using b by simp
  then have "(of_int (n + 1) :: rat) \<le> of_int (2 ^ nat (bitlen n))"
    by (simp only: of_int_le_iff)
  then have "(of_int (n + 1) :: rat) \<le> 2 ^ nat (bitlen n)" by simp
  moreover have "x < of_int (n + 1)" unfolding n_def by linarith
  ultimately have "x < 2 ^ nat (bitlen n)" by (rule less_le_trans [rotated])
  then have 2: "x < pow2 (ilog2 x + 1)" using bl by (simp add: e pow2_def)
  from 1 2 show ?thesis ..
next
  case False
  define N where "N = \<lceil>1 / x\<rceil>"
  define k where "k = bitlen (N - 1)"
  have y: "1 < 1 / x" using False assms by simp
  then have N2: "2 \<le> N" unfolding N_def by linarith
  then have pos: "0 < N - 1" by simp
  have b: "2 ^ nat (k - 1) \<le> N - 1 \<and> N - 1 < 2 ^ nat k"
    unfolding k_def using bitlen_bounds [OF pos] .
  have k1: "1 \<le> k" using pos by (simp add: k_def bitlen_alt_def)
  have e: "ilog2 x = - k" using False by (simp add: ilog2_def N_def k_def)
  have "N \<le> 2 ^ nat k" using b by simp
  then have "(of_int N :: rat) \<le> of_int (2 ^ nat k)" by (simp only: of_int_le_iff)
  then have "(of_int N :: rat) \<le> 2 ^ nat k" by simp
  moreover have "1 / x \<le> of_int N" unfolding N_def by linarith
  ultimately have le: "1 / x \<le> 2 ^ nat k" by (rule order_trans [rotated])
  have "1 \<le> x * 2 ^ nat k"
    using le assms by (simp add: field_simps)
  then have 1: "pow2 (ilog2 x) \<le> x"
    using k1 by (simp add: e pow2_def field_simps)
  have "(of_int (2 ^ nat (k - 1)) :: rat) \<le> of_int (N - 1)"
    using b by (simp only: of_int_le_iff)
  then have "(2 ^ nat (k - 1) :: rat) \<le> of_int (N - 1)" by simp
  moreover have "of_int (N - 1) < 1 / x" unfolding N_def by linarith
  ultimately have lt: "2 ^ nat (k - 1) < 1 / x" by (rule le_less_trans)
  then have x: "x * 2 ^ nat (k - 1) < 1"
    using assms by (simp add: field_simps)
  have 2: "x < pow2 (ilog2 x + 1)"
  proof (cases "k = 1")
    case True
    then show ?thesis using x by (simp add: e pow2_def)
  next
    case False
    then have "\<not> 0 \<le> - k + 1" "nat (- (- k + 1)) = nat (k - 1)" using k1 by auto
    then show ?thesis using x by (simp add: e pow2_def field_simps)
  qed
  from 1 2 show ?thesis ..
qed

lemma ilog2_eqI:
  assumes "pow2 e \<le> x" "x < pow2 (e + 1)"
  shows "ilog2 x = e"
proof -
  have pos: "0 < x" using assms(1) pow2_pos [of e] by linarith
  note b = ilog2_bounds [OF pos]
  have "\<not> ilog2 x < e"
  proof
    assume "ilog2 x < e"
    then have "pow2 (ilog2 x + 1) \<le> pow2 e" by (intro pow2_mono) simp
    with b assms show False by linarith
  qed
  moreover have "\<not> e < ilog2 x"
  proof
    assume "e < ilog2 x"
    then have "pow2 (e + 1) \<le> pow2 (ilog2 x)" by (intro pow2_mono) simp
    with b assms show False by linarith
  qed
  ultimately show ?thesis by simp
qed

lemma round_half_even_error: "\<bar>of_int (round_half_even q) - q\<bar> \<le> 1 / 2"
proof -
  define f where "f = \<lfloor>q\<rfloor>"
  define r where "r = q - of_int f"
  define v where "v = round_half_even q"
  have r: "0 \<le> r" "r < 1" unfolding r_def f_def by linarith+
  have q: "q = of_int f + r" by (simp add: r_def)
  have rhe: "v = (if r < 1 / 2 then f else if 1 / 2 < r then f + 1 else if even f then f else f + 1)"
    unfolding v_def round_half_even_def Let_def f_def r_def ..
  consider "r < 1 / 2" | "1 / 2 < r" | "r = 1 / 2" by linarith
  then have "\<bar>of_int v - q\<bar> \<le> 1 / 2"
  proof cases
    case 1
    then have "v = f" by (simp only: rhe) simp
    then show ?thesis using r 1 unfolding q by simp
  next
    case 2
    then have "v = f + 1" by (simp only: rhe) simp
    then show ?thesis using r 2 unfolding q by simp
  next
    case 3
    then have "v = f \<or> v = f + 1" by (simp only: rhe) simp
    then show ?thesis using 3 unfolding q by auto
  qed
  then show ?thesis by (simp only: v_def)
qed

lemma round_half_even_eqI:
  assumes "\<bar>q - of_int n\<bar> < 1 / 2"
  shows "round_half_even q = n"
proof -
  have "\<bar>of_int (round_half_even q) - q\<bar> \<le> 1 / 2" by (rule round_half_even_error)
  with assms have "\<bar>(of_int (round_half_even q) :: rat) - of_int n\<bar> < 1" by linarith
  then have "\<bar>(of_int (round_half_even q - n) :: rat)\<bar> < 1" by simp
  then have "\<bar>round_half_even q - n\<bar> < 1"
    by (metis of_int_abs of_int_less_1_iff)
  then show ?thesis by simp
qed

text \<open>Evaluating the rounding at a given number: the exponent and the rounded multiple are supplied.\<close>

lemma binary64_eqI:
  assumes "pow2 e \<le> \<bar>x\<bar>" "\<bar>x\<bar> < pow2 (e + 1)" "- 1022 \<le> e"
    and "\<bar>x - of_int n * pow2 (e - 52)\<bar> * 2 < pow2 (e - 52)"
  shows "binary64 x = of_int n * pow2 (e - 52)"
proof -
  have nz: "x \<noteq> 0"
  proof
    assume "x = 0"
    with assms(1) have "pow2 e \<le> 0" by simp
    with pow2_pos [of e] show False by linarith
  qed
  have il: "ilog2 \<bar>x\<bar> = e" by (rule ilog2_eqI [OF assms(1,2)])
  define q where "q = pow2 (e - 52)"
  have q: "0 < q" by (simp add: q_def)
  have "\<bar>x / q - of_int n\<bar> = \<bar>x - of_int n * q\<bar> / q"
    using q by (simp add: field_simps abs_divide)
  also have "\<dots> < 1 / 2" using assms(4) q by (simp add: q_def field_simps)
  finally have "round_half_even (x / q) = n" by (rule round_half_even_eqI)
  then show ?thesis using nz il assms(3) by (simp add: binary64_def Let_def q_def max_def)
qed

lemma binary64_error:
  assumes "pow2 (- 1022) \<le> \<bar>x\<bar>"
  shows "\<bar>binary64 x - x\<bar> \<le> \<bar>x\<bar> / 2 ^ 53"
proof -
  have pos: "0 < \<bar>x\<bar>" using assms pow2_pos [of "- 1022"] by linarith
  then have nz: "x \<noteq> 0" by simp
  define e where "e = ilog2 \<bar>x\<bar>"
  have b: "pow2 e \<le> \<bar>x\<bar>" "\<bar>x\<bar> < pow2 (e + 1)"
    using ilog2_bounds [OF pos] by (simp_all add: e_def)
  have e: "- 1022 \<le> e"
  proof (rule ccontr)
    assume "\<not> - 1022 \<le> e"
    then have "pow2 (e + 1) \<le> pow2 (- 1022)" by (intro pow2_mono) simp
    with b assms show False by linarith
  qed
  define q where "q = pow2 (e - 52)"
  have q: "0 < q" by (simp add: q_def)
  have qe: "pow2 e = 2 ^ 53 * q / 2"
    using pow2_add_nat [of "e - 52" 52] by (simp add: q_def)
  have bin: "binary64 x = of_int (round_half_even (x / q)) * q"
    using nz e by (simp add: binary64_def Let_def q_def e_def max_def)
  have "\<bar>of_int (round_half_even (x / q)) - x / q\<bar> \<le> 1 / 2"
    by (rule round_half_even_error)
  then have "\<bar>of_int (round_half_even (x / q)) - x / q\<bar> * q \<le> 1 / 2 * q"
    using q by (simp add: mult_le_cancel_right)
  moreover have "\<bar>of_int (round_half_even (x / q)) - x / q\<bar> * q =
      \<bar>of_int (round_half_even (x / q)) * q - x\<bar>"
  proof -
    have "\<bar>of_int (round_half_even (x / q)) - x / q\<bar> * q =
          \<bar>(of_int (round_half_even (x / q)) - x / q) * q\<bar>"
      using q by (simp add: abs_mult)
    also have "(of_int (round_half_even (x / q)) - x / q) * q =
          of_int (round_half_even (x / q)) * q - x"
      using q by (simp add: field_simps)
    finally show ?thesis .
  qed
  ultimately have "\<bar>binary64 x - x\<bar> \<le> q / 2" by (simp add: bin)
  also have "q / 2 = pow2 e / 2 ^ 53" by (simp add: qe)
  also have "\<dots> \<le> \<bar>x\<bar> / 2 ^ 53" using b(1) by (simp add: divide_right_mono)
  finally show ?thesis .
qed

lemma round_half_even_tie:
  assumes "q = of_int n + 1 / 2" "even n"
  shows "round_half_even q = n"
proof -
  have "\<lfloor>q\<rfloor> = n" unfolding assms(1) by linarith
  then show ?thesis using assms by (simp add: round_half_even_def Let_def)
qed

lemma binary64_tieI:
  assumes "pow2 e \<le> \<bar>x\<bar>" "\<bar>x\<bar> < pow2 (e + 1)" "- 1022 \<le> e"
    and "x = (of_int n + 1 / 2) * pow2 (e - 52)" "even n"
  shows "binary64 x = of_int n * pow2 (e - 52)"
proof -
  have nz: "x \<noteq> 0"
  proof
    assume "x = 0"
    with assms(1) have "pow2 e \<le> 0" by simp
    with pow2_pos [of e] show False by linarith
  qed
  have il: "ilog2 \<bar>x\<bar> = e" by (rule ilog2_eqI [OF assms(1,2)])
  define q where "q = pow2 (e - 52)"
  have q: "0 < q" by (simp add: q_def)
  have "x = (of_int n + 1 / 2) * q" using assms(4) by (simp only: q_def)
  then have "x / q = of_int n + 1 / 2" using q by simp
  then have "round_half_even (x / q) = n" using assms(5) by (rule round_half_even_tie)
  then show ?thesis using nz il assms(3) by (simp add: binary64_def Let_def q_def max_def)
qed

lemma binary64_exact:
  assumes "pow2 e \<le> \<bar>x\<bar>" "\<bar>x\<bar> < pow2 (e + 1)" "- 1022 \<le> e"
    and "x = of_int n * pow2 (e - 52)"
  shows "binary64 x = x"
proof -
  have "\<bar>x - of_int n * pow2 (e - 52)\<bar> * 2 < pow2 (e - 52)"
    using assms(4) by simp
  from binary64_eqI [OF assms(1-3) this] show ?thesis using assms(4) by simp
qed

lemma binary64_0 [simp]: "binary64 0 = 0"
  by (simp add: binary64_def)

lemma pow2_0 [simp]: "pow2 0 = 1"
  by (simp add: pow2_def)

lemma pow2_min_normal_le: "pow2 (- 1022) \<le> 1 / 10000000"
proof -
  have "pow2 (- 1022) \<le> pow2 (- 24)" by (rule pow2_mono) simp
  also have "pow2 (- 24) \<le> 1 / 10000000" by (simp add: pow2_def)
  finally show ?thesis .
qed

lemma binary64_1: "binary64 1 = 1"
proof -
  have "binary64 1 = of_int 4503599627370496 * pow2 (0 - 52)"
    by (rule binary64_eqI) (simp_all add: pow2_def)
  then show ?thesis by (simp add: pow2_def)
qed

text \<open>
  The delay of line 97 for a microsecond field \<open>m\<close> below \<open>10^6\<close>: both roundings are in
  the normal range, so each is off by at most \<open>2^(-53)\<close> of its argument.
\<close>

lemma slp_seconds_bounds:
  assumes m: "m < 10 ^ 6"
  shows "0 < float_sub 1 (float_div (of_nat m) (10 ^ 6)) \<and>
         float_sub 1 (float_div (of_nat m) (10 ^ 6)) \<le> 1 \<and>
         \<bar>float_sub 1 (float_div (of_nat m) (10 ^ 6)) - (1 - of_nat m / 10 ^ 6)\<bar> \<le> 1 / 2 ^ 52 \<and>
         (m = 0 \<longrightarrow> float_sub 1 (float_div (of_nat m) (10 ^ 6)) = 1)"
proof (cases "m = 0")
  case True
  then show ?thesis by (simp add: float_sub_def float_div_def binary64_1)
next
  case False
  define x :: rat where "x = of_nat m / 10 ^ 6"
  define y where "y = binary64 x"
  define z where "z = 1 - y"
  define d where "d = binary64 z"
  have "1 \<le> m" "m \<le> 999999" using False m by simp_all
  then have "(of_nat 1 :: rat) \<le> of_nat m" "(of_nat m :: rat) \<le> of_nat 999999"
    by (simp_all only: of_nat_le_iff)
  then have "(1::rat) \<le> of_nat m" "(of_nat m :: rat) \<le> 999999"
    by simp_all
  then have x: "1 / 1000000 \<le> x" "x \<le> 999999 / 1000000"
    by (simp_all add: x_def field_simps)
  have nx: "pow2 (- 1022) \<le> \<bar>x\<bar>"
    using pow2_min_normal_le x by linarith
  have "\<bar>y - x\<bar> \<le> \<bar>x\<bar> / 2 ^ 53"
    unfolding y_def by (rule binary64_error [OF nx])
  also have "\<bar>x\<bar> / 2 ^ 53 \<le> 1 / 2 ^ 53"
    using x by (intro divide_right_mono) simp_all
  finally have ey: "\<bar>y - x\<bar> \<le> 1 / 9007199254740992" by simp
  have y: "1 / 10000000 \<le> y" "y \<le> 1 - 1 / 10000000"
    using ey x by linarith+
  have zb: "1 / 10000000 \<le> z" "z \<le> 1 - 1 / 10000000"
    using y by (simp_all add: z_def)
  have nz: "pow2 (- 1022) \<le> \<bar>z\<bar>"
    using pow2_min_normal_le zb by linarith
  have "\<bar>d - z\<bar> \<le> \<bar>z\<bar> / 2 ^ 53"
    unfolding d_def by (rule binary64_error [OF nz])
  also have "\<bar>z\<bar> / 2 ^ 53 \<le> 1 / 2 ^ 53"
    using zb by (intro divide_right_mono) simp_all
  finally have ed: "\<bar>d - z\<bar> \<le> 1 / 9007199254740992" by simp
  have 1: "0 < d" using ed zb by linarith
  have 2: "d \<le> 1" using ed zb by linarith
  have "\<bar>d - (1 - x)\<bar> \<le> 1 / 4503599627370496"
    using ed ey unfolding z_def by linarith
  then have 3: "\<bar>d - (1 - x)\<bar> \<le> 1 / 2 ^ 52" by simp
  have dd: "float_sub 1 (float_div (of_nat m) (10 ^ 6)) = d"
    by (simp add: float_sub_def float_div_def d_def z_def y_def x_def)
  show ?thesis unfolding dd using 1 2 3 False by (simp add: x_def)
qed

subsection \<open>Binary64 values of the concrete timer\<close>

lemma binary64_half: "binary64 (1 / 2) = 1 / 2"
proof -
  have "binary64 (1 / 2) = of_int 4503599627370496 * pow2 (- 1 - 52)"
    by (rule binary64_eqI) (simp_all add: pow2_def)
  then show ?thesis by (simp add: pow2_def)
qed

lemma binary64_21_2: "binary64 (21 / 2) = 21 / 2"
proof -
  have "binary64 (21 / 2) = of_int 5910974510923776 * pow2 (3 - 52)"
    by (rule binary64_eqI) (simp_all add: pow2_def)
  then show ?thesis by (simp add: pow2_def)
qed

lemma binary64_late1: "binary64 (365917469723853 / 281474976710656) = 365917469723853 / 281474976710656"
proof -
  have "binary64 (365917469723853 / 281474976710656) = of_int 5854679515581648 * pow2 (0 - 52)"
    by (rule binary64_eqI) (simp_all add: pow2_def)
  then show ?thesis by (simp add: pow2_def)
qed

lemma binary64_3_10: "binary64 (3 / 10) = 5404319552844595 / 18014398509481984"
proof -
  have "binary64 (3 / 10) = of_int 5404319552844595 * pow2 (- 2 - 52)"
    by (rule binary64_eqI) (simp_all add: pow2_def)
  then show ?thesis by (simp add: pow2_def)
qed

lemma binary64_slp_T1: "binary64 (12610078956637389 / 18014398509481984) = 3152519739159347 / 4503599627370496"
proof -
  have "binary64 (12610078956637389 / 18014398509481984) = of_int 6305039478318694 * pow2 (- 1 - 52)"
    by (rule binary64_tieI) (simp_all add: pow2_def)
  then show ?thesis by (simp add: pow2_def)
qed

lemma binary64_target2: "binary64 (56351290337473331 / 4503599627370496) = 3521955646092083 / 281474976710656"
proof -
  have "binary64 (56351290337473331 / 4503599627370496) = of_int 7043911292184166 * pow2 (3 - 52)"
    by (rule binary64_eqI) (simp_all add: pow2_def)
  then show ?thesis by (simp add: pow2_def)
qed

lemma binary64_late2: "binary64 (31665934879949 / 281474976710656) = 31665934879949 / 281474976710656"
proof -
  have "binary64 (31665934879949 / 281474976710656) = of_int 8106479329266944 * pow2 (- 4 - 52)"
    by (rule binary64_eqI) (simp_all add: pow2_def)
  then show ?thesis by (simp add: pow2_def)
qed

lemma binary64_999999: "binary64 (999999 / 1000000) = 9007190247541737 / 9007199254740992"
proof -
  have "binary64 (999999 / 1000000) = of_int 9007190247541737 * pow2 (- 1 - 52)"
    by (rule binary64_eqI) (simp_all add: pow2_def)
  then show ?thesis by (simp add: pow2_def)
qed

lemma binary64_slp_999999: "binary64 (9007199255 / 9007199254740992) = 9007199255 / 9007199254740992"
proof -
  have "binary64 (9007199255 / 9007199254740992) = of_int 4722366483005440 * pow2 (- 20 - 52)"
    by (rule binary64_eqI) (simp_all add: pow2_def)
  then show ?thesis by (simp add: pow2_def)
qed

subsection \<open>Constants\<close>

lemma event_types_distinct: "EVENT_TIME_CHANGED \<noteq> EVENT_TIMER_OUT_OF_SYNC"
  by (simp add: EVENT_TIME_CHANGED_def EVENT_TIMER_OUT_OF_SYNC_def)

lemma attrs_distinct: "ATTR_NOW \<noteq> ATTR_SECONDS"
  by (simp add: ATTR_NOW_def ATTR_SECONDS_def)

subsection \<open>What \<open>schedule_tick\<close> changes\<close>

lemma schedule_tick_bus_fired [simp]:
  "bus_fired (hass (schedule_tick m now s)) = bus_fired (hass s)"
  by (simp add: schedule_tick_def call_later_def Let_def)

lemma schedule_tick_bus_listeners [simp]:
  "bus_listeners (hass (schedule_tick m now s)) = bus_listeners (hass s)"
  by (simp add: schedule_tick_def call_later_def Let_def)

lemma schedule_tick_logger_info [simp]:
  "logger_info (hass (schedule_tick m now s)) = logger_info (hass s)"
  by (simp add: schedule_tick_def call_later_def Let_def)

lemma schedule_tick_timer_context [simp]:
  "timer_context (schedule_tick m now s) = timer_context s"
  by (simp add: schedule_tick_def call_later_def Let_def)

lemma schedule_tick_handle [simp]:
  "handle (schedule_tick m now s) = Some (length (loop_handles (hass s)))"
  by (simp add: schedule_tick_def call_later_def Let_def)

lemma schedule_tick_loop_handles [simp]:
  "loop_handles (hass (schedule_tick m now s)) =
     loop_handles (hass s) @
       [\<lparr>th_delay = float_sub 1 (float_div (of_nat (microsecond now)) (10 ^ 6)),
         th_callback = FireTimeEvent,
         th_arg = float_add m (float_sub 1 (float_div (of_nat (microsecond now)) (10 ^ 6))),
         th_cancelled = False, th_ran = False\<rparr>]"
  by (simp add: schedule_tick_def call_later_def Let_def)

subsection \<open>What \<open>fire_time_event\<close> changes\<close>

lemma fire_time_event_bus_fired:
  "bus_fired (hass (fire_time_event now m1 m2 target s)) =
     bus_fired (hass s) @
       \<lparr>event_type = EVENT_TIME_CHANGED, data = [ATTR_NOW \<mapsto> DateValue now], origin = LOCAL,
         time_fired = now, event_context = timer_context s\<rparr> #
       (if float_sub m1 target > 1
        then [\<lparr>event_type = EVENT_TIMER_OUT_OF_SYNC,
               data = [ATTR_SECONDS \<mapsto> FloatValue (float_sub m1 target)], origin = LOCAL,
               time_fired = now, event_context = timer_context s\<rparr>]
        else [])"
  by (simp add: fire_time_event_def async_fire_def Let_def)

lemma fire_time_event_timer_context [simp]:
  "timer_context (fire_time_event now m1 m2 target s) = timer_context s"
  by (simp add: fire_time_event_def Let_def)

lemma fire_time_event_bus_listeners [simp]:
  "bus_listeners (hass (fire_time_event now m1 m2 target s)) = bus_listeners (hass s)"
  by (simp add: fire_time_event_def async_fire_def Let_def)

lemma fire_time_event_handle [simp]:
  "handle (fire_time_event now m1 m2 target s) = Some (length (loop_handles (hass s)))"
  by (simp add: fire_time_event_def async_fire_def Let_def)

lemma fire_time_event_loop_handles [simp]:
  "loop_handles (hass (fire_time_event now m1 m2 target s)) =
     loop_handles (hass s) @
       [\<lparr>th_delay = float_sub 1 (float_div (of_nat (microsecond now)) (10 ^ 6)),
         th_callback = FireTimeEvent,
         th_arg = float_add m2 (float_sub 1 (float_div (of_nat (microsecond now)) (10 ^ 6))),
         th_cancelled = False, th_ran = False\<rparr>]"
  by (simp add: fire_time_event_def async_fire_def Let_def)

lemma new_events_fire:
  "new_events (hass s) (fire_time_event now m1 m2 target s) =
       \<lparr>event_type = EVENT_TIME_CHANGED, data = [ATTR_NOW \<mapsto> DateValue now], origin = LOCAL,
         time_fired = now, event_context = timer_context s\<rparr> #
       (if float_sub m1 target > 1
        then [\<lparr>event_type = EVENT_TIMER_OUT_OF_SYNC,
               data = [ATTR_SECONDS \<mapsto> FloatValue (float_sub m1 target)], origin = LOCAL,
               time_fired = now, event_context = timer_context s\<rparr>]
        else [])"
  by (simp add: new_events_def fire_time_event_bus_fired)

subsection \<open>What \<open>_async_create_timer\<close> sets up\<close>

lemma create_timer_context [simp]:
  "timer_context (async_create_timer uuid now0 m0 h0) = new_Context uuid"
  by (simp add: async_create_timer_def Let_def)

lemma create_bus_fired [simp]:
  "bus_fired (hass (async_create_timer uuid now0 m0 h0)) = bus_fired h0"
  by (simp add: async_create_timer_def async_listen_once_def Let_def)

lemma create_loop_handles [simp]:
  "loop_handles (hass (async_create_timer uuid now0 m0 h0)) =
     loop_handles h0 @
       [\<lparr>th_delay = float_sub 1 (float_div (of_nat (microsecond now0)) (10 ^ 6)),
         th_callback = FireTimeEvent,
         th_arg = float_add m0 (float_sub 1 (float_div (of_nat (microsecond now0)) (10 ^ 6))),
         th_cancelled = False, th_ran = False\<rparr>]"
  by (simp add: async_create_timer_def async_listen_once_def Let_def)

lemma create_handle [simp]:
  "handle (async_create_timer uuid now0 m0 h0) = Some (length (loop_handles h0))"
  by (simp add: async_create_timer_def async_listen_once_def Let_def)

lemma create_bus_listeners [simp]:
  "bus_listeners (hass (async_create_timer uuid now0 m0 h0)) =
     bus_listeners h0 @
       [\<lparr>ls_event_type = EVENT_HOMEASSISTANT_STOP, ls_callback = StopTimer, ls_once = True\<rparr>]"
  by (simp add: async_create_timer_def async_listen_once_def Let_def)

lemma create_logger_info [simp]:
  "logger_info (hass (async_create_timer uuid now0 m0 h0)) =
     logger_info h0 @ [''Timer:starting'']"
  by (simp add: async_create_timer_def async_listen_once_def Let_def)

lemma new_events_same_length:
  "length (bus_fired h) = length (bus_fired h') \<Longrightarrow> new_events h = new_events h'"
  by (simp add: new_events_def fun_eq_iff)

lemma new_events_create:
  "new_events h0 = new_events (hass (async_create_timer uuid now0 m0 h0))"
  by (rule new_events_same_length) simp

subsection \<open>Wake-ups and runs\<close>

lemma run_handle_skip:
  "\<not> (i < length (loop_handles (hass s)) \<and> pending (loop_handles (hass s) ! i)) \<Longrightarrow>
   run_handle i r s = s"
  by (auto simp: run_handle_def)

lemma run_handle_fire:
  "i < length (loop_handles (hass s)) \<Longrightarrow> pending (loop_handles (hass s) ! i) \<Longrightarrow>
   run_handle i r s =
     fire_time_event (utcnow r) (monotonic_1 r) (monotonic_2 r)
       (th_arg (loop_handles (hass s) ! i))
       (s\<lparr>hass := (hass s)\<lparr>loop_handles :=
             (loop_handles (hass s))[i := (loop_handles (hass s) ! i)\<lparr>th_ran := True\<rparr>]\<rparr>\<rparr>)"
  by (cases "th_callback (loop_handles (hass s) ! i)") (simp add: run_handle_def Let_def)

lemma run_handle_timer_context [simp]:
  "timer_context (run_handle i r s) = timer_context s"
  by (cases "i < length (loop_handles (hass s)) \<and> pending (loop_handles (hass s) ! i)")
     (simp_all add: run_handle_fire run_handle_skip)

lemma run_handle_bus_listeners [simp]:
  "bus_listeners (hass (run_handle i r s)) = bus_listeners (hass s)"
  by (cases "i < length (loop_handles (hass s)) \<and> pending (loop_handles (hass s) ! i)")
     (simp_all add: run_handle_fire run_handle_skip)

lemma run_ticks_timer_context [simp]:
  "timer_context (run_ticks steps s) = timer_context s"
  by (induction steps arbitrary: s) auto

lemma run_ticks_bus_listeners [simp]:
  "bus_listeners (hass (run_ticks steps s)) = bus_listeners (hass s)"
  by (induction steps arbitrary: s) auto

text \<open>The events of one wake-up: none when the handle is skipped, those of the tick otherwise.\<close>

lemma run_handle_bus_fired:
  "bus_fired (hass (run_handle i r s)) = bus_fired (hass s) @ new_events (hass s) (run_handle i r s)"
  by (cases "i < length (loop_handles (hass s)) \<and> pending (loop_handles (hass s) ! i)")
     (simp_all add: run_handle_fire run_handle_skip new_events_def fire_time_event_bus_fired)

lemma new_events_append:
  "bus_fired (hass s') = bus_fired h @ evs \<Longrightarrow> new_events h s' = evs"
  by (simp add: new_events_def)

lemma run_ticks_bus_fired:
  "bus_fired (hass (run_ticks steps s)) = bus_fired (hass s) @ new_events (hass s) (run_ticks steps s)"
proof (induction steps arbitrary: s)
  case Nil
  show ?case by (simp add: new_events_def)
next
  case (Cons step rest)
  obtain i r where step: "step = (i, r)" by (cases step)
  define s1 where "s1 = run_handle i r s"
  define evs1 where "evs1 = new_events (hass s) s1"
  define evs2 where "evs2 = new_events (hass s1) (run_ticks rest s1)"
  have a: "bus_fired (hass (run_ticks rest s1)) = bus_fired (hass s1) @ evs2"
    unfolding evs2_def by (rule Cons.IH)
  have b: "bus_fired (hass s1) = bus_fired (hass s) @ evs1"
    unfolding evs1_def s1_def by (rule run_handle_bus_fired)
  have c: "bus_fired (hass (run_ticks rest s1)) = bus_fired (hass s) @ (evs1 @ evs2)"
    using a b by simp
  have "new_events (hass s) (run_ticks rest s1) = evs1 @ evs2"
    by (rule new_events_append [OF c])
  with c show ?case by (simp add: step s1_def)
qed

lemma new_events_run_ticks_Cons:
  "new_events (hass s) (run_ticks ((i, r) # rest) s) =
     new_events (hass s) (run_handle i r s) @
     new_events (hass (run_handle i r s)) (run_ticks rest (run_handle i r s))"
proof -
  define s1 where "s1 = run_handle i r s"
  define evs1 where "evs1 = new_events (hass s) s1"
  define evs2 where "evs2 = new_events (hass s1) (run_ticks rest s1)"
  have a: "bus_fired (hass (run_ticks rest s1)) = bus_fired (hass s1) @ evs2"
    unfolding evs2_def by (rule run_ticks_bus_fired)
  have b: "bus_fired (hass s1) = bus_fired (hass s) @ evs1"
    unfolding evs1_def s1_def by (rule run_handle_bus_fired)
  have c: "bus_fired (hass (run_ticks rest s1)) = bus_fired (hass s) @ (evs1 @ evs2)"
    using a b by simp
  have "new_events (hass s) (run_ticks rest s1) = evs1 @ evs2"
    by (rule new_events_append [OF c])
  then show ?thesis by (simp add: s1_def evs1_def evs2_def)
qed

text \<open>
  A property of events that every call of \<open>fire_time_event\<close> under the context \<open>c\<close>
  establishes holds of all events of a run under \<open>c\<close>.
\<close>

lemma run_ticks_events:
  assumes tick: "\<And>now m1 m2 target s'. timer_context s' = c \<Longrightarrow>
     \<forall>e \<in> set (new_events (hass s') (fire_time_event now m1 m2 target s')). P e"
    and ctx: "timer_context s = c"
  shows "\<forall>e \<in> set (new_events (hass s) (run_ticks steps s)). P e"
  using ctx
proof (induction steps arbitrary: s)
  case Nil
  show ?case by (simp add: new_events_def)
next
  case (Cons step rest)
  obtain i r where step: "step = (i, r)" by (cases step)
  let ?s1 = "run_handle i r s"
  have one: "\<forall>e \<in> set (new_events (hass s) ?s1). P e"
  proof (cases "i < length (loop_handles (hass s)) \<and> pending (loop_handles (hass s) ! i)")
    case False
    then show ?thesis by (simp add: run_handle_skip new_events_def)
  next
    case True
    let ?s' = "s\<lparr>hass := (hass s)\<lparr>loop_handles :=
             (loop_handles (hass s))[i := (loop_handles (hass s) ! i)\<lparr>th_ran := True\<rparr>]\<rparr>\<rparr>"
    have "timer_context ?s' = c" using Cons.prems by simp
    from tick [OF this] have "\<forall>e \<in> set (new_events (hass ?s')
        (fire_time_event (utcnow r) (monotonic_1 r) (monotonic_2 r)
           (th_arg (loop_handles (hass s) ! i)) ?s')). P e" .
    moreover have "new_events (hass ?s') = new_events (hass s)"
      by (simp add: new_events_def fun_eq_iff)
    ultimately show ?thesis using True by (simp add: run_handle_fire)
  qed
  have "timer_context ?s1 = c" using Cons.prems by simp
  from Cons.IH [OF this] have "\<forall>e \<in> set (new_events (hass ?s1) (run_ticks rest ?s1)). P e" .
  with one show ?case unfolding step new_events_run_ticks_Cons by auto
qed

subsection \<open>The invariant is established and kept\<close>

lemma filter_eq_upt: "filter (\<lambda>i. i = k) [0..<n] = (if k < n then [k] else [])"
  by (induction n) auto

lemma pending_handles_single:
  assumes "k < length (loop_handles h)"
    and "\<forall>j < length (loop_handles h). pending (loop_handles h ! j) = (j = k)"
  shows "pending_handles h = [k]"
proof -
  have "filter (\<lambda>i. pending (loop_handles h ! i)) [0..<length (loop_handles h)] =
        filter (\<lambda>i. i = k) [0..<length (loop_handles h)]"
    using assms(2) by (intro filter_cong) auto
  then show ?thesis using assms(1) by (simp add: pending_handles_def filter_eq_upt)
qed

lemma pending_handles_none:
  assumes "\<forall>j < length (loop_handles h). \<not> pending (loop_handles h ! j)"
  shows "pending_handles h = []"
  using assms by (simp add: pending_handles_def filter_empty_conv)

lemma timer_inv_pending_handles:
  "timer_inv s \<Longrightarrow> pending_handles (hass s) = [length (loop_handles (hass s)) - 1]"
  by (rule pending_handles_single) (auto simp: timer_inv_def Let_def)

lemma timer_inv_create:
  assumes "\<forall>th \<in> set (loop_handles h0). \<not> pending th"
  shows "timer_inv (async_create_timer uuid now0 m0 h0)"
  using assms by (auto simp: timer_inv_def Let_def nth_append pending_def)

lemma timer_inv_fire:
  assumes "loop_handles (hass s) \<noteq> []"
    and "\<forall>j < length (loop_handles (hass s)). \<not> pending (loop_handles (hass s) ! j)"
  shows "timer_inv (fire_time_event now m1 m2 target s)"
  using assms by (auto simp: timer_inv_def Let_def nth_append pending_def)

lemma timer_inv_run_handle:
  assumes inv: "timer_inv s"
  shows "timer_inv (run_handle i r s)"
proof (cases "i < length (loop_handles (hass s)) \<and> pending (loop_handles (hass s) ! i)")
  case False
  then show ?thesis using inv by (simp add: run_handle_skip)
next
  case True
  define L where "L = loop_handles (hass s)"
  define s' where "s' = s\<lparr>hass := (hass s)\<lparr>loop_handles := L[i := (L ! i)\<lparr>th_ran := True\<rparr>]\<rparr>\<rparr>"
  have i: "i = length L - 1" "i < length L"
    using True inv by (auto simp: timer_inv_def Let_def L_def)
  have ne: "loop_handles (hass s') \<noteq> []"
    using i by (auto simp: s'_def)
  have np: "\<forall>j < length (loop_handles (hass s')). \<not> pending (loop_handles (hass s') ! j)"
  proof (intro allI impI)
    fix j assume "j < length (loop_handles (hass s'))"
    then have j: "j < length L" by (simp add: s'_def)
    show "\<not> pending (loop_handles (hass s') ! j)"
    proof (cases "j = i")
      case True
      then show ?thesis using i by (simp add: s'_def pending_def)
    next
      case False
      then have "\<not> pending (L ! j)"
        using inv j i by (auto simp: timer_inv_def Let_def L_def)
      then show ?thesis using False by (simp add: s'_def)
    qed
  qed
  have "run_handle i r s = fire_time_event (utcnow r) (monotonic_1 r) (monotonic_2 r) (th_arg (L ! i)) s'"
    using True by (simp add: run_handle_fire s'_def L_def)
  then show ?thesis using timer_inv_fire [OF ne np] by simp
qed

lemma timer_inv_run_ticks: "timer_inv s \<Longrightarrow> timer_inv (run_ticks steps s)"
  by (induction steps arbitrary: s) (auto simp: timer_inv_run_handle)

lemma timer_inv_stop:
  assumes inv: "timer_inv s"
  shows "\<exists>s'. stop_timer ev s = Inr s' \<and> pending_handles (hass s') = []"
proof -
  define L where "L = loop_handles (hass s)"
  define i where "i = length L - 1"
  define s' where "s' = s\<lparr>hass := (hass s)\<lparr>loop_handles := L[i := (L ! i)\<lparr>th_cancelled := True\<rparr>]\<rparr>\<rparr>"
  have h: "handle s = Some i" "i < length L"
    using inv by (auto simp: timer_inv_def Let_def L_def i_def)
  have st: "stop_timer ev s = Inr s'"
    using h by (simp add: stop_timer_def cancel_def s'_def L_def)
  have "\<forall>j < length (loop_handles (hass s')). \<not> pending (loop_handles (hass s') ! j)"
  proof (intro allI impI)
    fix j assume "j < length (loop_handles (hass s'))"
    then have j: "j < length L" by (simp add: s'_def)
    show "\<not> pending (loop_handles (hass s') ! j)"
    proof (cases "j = i")
      case True
      then show ?thesis using h by (simp add: s'_def pending_def)
    next
      case False
      then have "\<not> pending (L ! j)"
        using inv j by (auto simp: timer_inv_def Let_def L_def i_def)
      then show ?thesis using False by (simp add: s'_def)
    qed
  qed
  then have "pending_handles (hass s') = []" by (rule pending_handles_none)
  with st show ?thesis by blast
qed

text \<open>On a loop with no other pending handle, the handle in the cell is the only pending one.\<close>

lemma single_pending_on_quiet_loop:
  assumes "\<forall>th \<in> set (loop_handles h0). \<not> pending th"
  shows "pending_handles (hass (run_ticks steps (async_create_timer uuid now0 m0 h0))) =
           [length (loop_handles (hass (run_ticks steps (async_create_timer uuid now0 m0 h0)))) - 1]"
  by (intro timer_inv_pending_handles timer_inv_run_ticks timer_inv_create assms)

text \<open>
  Without that assumption: every call of \<open>schedule_tick\<close> leaves the cell on the handle
  it has just scheduled.
\<close>

lemma handle_latest_fire: "handle_latest (fire_time_event now m1 m2 target s)"
  by (simp add: handle_latest_def Let_def pending_def)

lemma handle_latest_create: "handle_latest (async_create_timer uuid now0 m0 h0)"
  by (simp add: handle_latest_def Let_def pending_def)

lemma handle_latest_run_handle:
  "handle_latest s \<Longrightarrow> handle_latest (run_handle i r s)"
  by (cases "i < length (loop_handles (hass s)) \<and> pending (loop_handles (hass s) ! i)")
     (simp_all add: run_handle_fire run_handle_skip handle_latest_fire)

lemma handle_latest_run_ticks: "handle_latest s \<Longrightarrow> handle_latest (run_ticks steps s)"
  by (induction steps arbitrary: s) (auto simp: handle_latest_run_handle)

lemma handle_latest_stop:
  assumes inv: "handle_latest s"
  shows "\<exists>s'. stop_timer ev s = Inr s' \<and>
           length (loop_handles (hass s')) = length (loop_handles (hass s)) \<and>
           th_cancelled (loop_handles (hass s') ! (length (loop_handles (hass s)) - 1)) \<and>
           \<not> pending (loop_handles (hass s') ! (length (loop_handles (hass s)) - 1)) \<and>
           run_handle (length (loop_handles (hass s)) - 1) r s' = s'"
proof -
  define L where "L = loop_handles (hass s)"
  define i where "i = length L - 1"
  define s' where "s' = s\<lparr>hass := (hass s)\<lparr>loop_handles := L[i := (L ! i)\<lparr>th_cancelled := True\<rparr>]\<rparr>\<rparr>"
  have h: "handle s = Some i" "i < length L"
    using inv by (auto simp: handle_latest_def Let_def L_def i_def)
  have st: "stop_timer ev s = Inr s'"
    using h by (simp add: stop_timer_def cancel_def s'_def L_def)
  have len: "length (loop_handles (hass s')) = length L" by (simp add: s'_def)
  have c: "th_cancelled (loop_handles (hass s') ! i)"
    using h by (simp add: s'_def)
  then have np: "\<not> pending (loop_handles (hass s') ! i)"
    by (simp add: pending_def)
  then have skip: "run_handle i r s' = s'"
    by (simp add: run_handle_skip)
  from st len c np skip show ?thesis
    unfolding i_def L_def by blast
qed

subsection \<open>The concrete timer\<close>

lemma timer0_eq:
  "timer0 = \<lparr>handle = Some 0, timer_context = \<lparr>context_id = 1, parent_id = None\<rparr>,
     hass = \<lparr>bus_fired = [],
       bus_listeners = [\<lparr>ls_event_type = EVENT_HOMEASSISTANT_STOP, ls_callback = StopTimer, ls_once = True\<rparr>],
       loop_handles = [\<lparr>th_delay = 1 / 2, th_callback = FireTimeEvent, th_arg = 21 / 2,
                         th_cancelled = False, th_ran = False\<rparr>],
       logger_info = [''Timer:starting'']\<rparr>\<rparr>"
  by (simp add: timer0_def async_create_timer_def schedule_tick_def call_later_def
      async_listen_once_def hub0_def T0_def new_Context_def Let_def
      float_sub_def float_div_def float_add_def binary64_half binary64_21_2)

text \<open>The lateness of the first wake-up, and the delay scheduled from \<open>T1\<close>.\<close>

lemma late1_eq:
  "float_sub mono_11_8 (21 / 2) = 365917469723853 / 281474976710656"
  "float_sub (3321404725185741 / 281474976710656) (21 / 2) = 365917469723853 / 281474976710656"
  by (simp_all add: float_sub_def mono_11_8_def binary64_late1)

lemma slp_T1_eq:
  "float_sub 1 (float_div (of_nat (microsecond T1)) 1000000) =
     3152519739159347 / 4503599627370496"
  "float_sub 1 (float_div 300000 1000000) = 3152519739159347 / 4503599627370496"
  by (simp_all add: float_sub_def float_div_def T1_def binary64_3_10 binary64_slp_T1)

lemma late2_eq:
  "float_sub (101 / 8) (float_add (189 / 16) (3152519739159347 / 4503599627370496)) =
     31665934879949 / 281474976710656"
  by (simp add: float_sub_def float_add_def binary64_target2 binary64_late2)

lemma run_two_ticks_events:
  "map event_type (new_events hub0 (run_ticks [(0, reads1), (1, reads2)] timer0)) =
     [EVENT_TIME_CHANGED, EVENT_TIMER_OUT_OF_SYNC, EVENT_TIME_CHANGED]"
  by (simp add: run_handle_def pending_def reads1_def reads2_def hub0_def
      new_events_def fire_time_event_bus_fired Let_def timer0_eq late1_eq slp_T1_eq late2_eq)

section \<open>The claims\<close>

subsection \<open>C1: a tick that is 1.3 seconds late\<close>

text \<open>
  Claim C1 says that a tick firing 1.3 seconds after its intended fire time, at time
  \<open>T\<close>, publishes \<open>time_changed\<close> with \<open>now = T\<close> and then \<open>timer_out_of_sync\<close> with
  \<open>seconds\<close> approximately 0.3. The code publishes the whole lateness under \<open>seconds\<close>,
  not the part beyond one second. C1 as amended: whenever the wake-up is 1.3 seconds
  late (the monotonic reading is 1.3 after \<open>target\<close>, to within \<open>10^(-9)\<close>), exactly two
  events are published, first \<open>time_changed\<close> with \<open>now = T\<close>, then \<open>timer_out_of_sync\<close>
  whose \<open>seconds\<close> is the lateness the code computes, \<open>monotonic() - target\<close>, which is
  within \<open>2 * 10^(-9)\<close> of 1.3.
\<close>

theorem late_tick_publishes_lateness:
  assumes "\<bar>(m1 - target) - 13 / 10\<bar> \<le> 1 / 10 ^ 9"
  shows "let new = new_events (hass s) (fire_time_event T m1 m2 target s);
             late = float_sub m1 target
         in map event_type new = [EVENT_TIME_CHANGED, EVENT_TIMER_OUT_OF_SYNC] \<and>
            data (new ! 0) ATTR_NOW = Some (DateValue T) \<and>
            seconds_of (new ! 1) = Some late \<and>
            \<bar>late - 13 / 10\<bar> \<le> 2 / 10 ^ 9"
proof -
  define z where "z = m1 - target"
  define late where "late = float_sub m1 target"
  have a: "\<bar>z - 13 / 10\<bar> \<le> 1 / 1000000000"
    using assms by (simp add: z_def)
  have z: "1 \<le> z" "z \<le> 2" "\<bar>z - 13 / 10\<bar> \<le> 1 / 10 ^ 9"
    using a by (linarith, linarith, simp)
  have nz: "pow2 (- 1022) \<le> \<bar>z\<bar>"
    using pow2_min_normal_le z by linarith
  have "\<bar>binary64 z - z\<bar> \<le> \<bar>z\<bar> / 2 ^ 53"
    by (rule binary64_error [OF nz])
  also have "\<bar>z\<bar> / 2 ^ 53 \<le> 2 / 2 ^ 53"
    using z by (intro divide_right_mono) simp_all
  also have "(2 :: rat) / 2 ^ 53 \<le> 1 / 10 ^ 9" by simp
  finally have "\<bar>late - z\<bar> \<le> 1 / 1000000000"
    by (simp add: late_def float_sub_def z_def)
  with a have b: "\<bar>late - 13 / 10\<bar> \<le> 2 / 1000000000"
    by linarith
  then have near: "\<bar>late - 13 / 10\<bar> \<le> 2 / 10 ^ 9" by simp
  from b have gt: "1 < late" by linarith
  show ?thesis
    unfolding Let_def late_def [symmetric]
    using near gt
    by (simp add: new_events_fire seconds_of_def late_def [symmetric])
qed

theorem late_tick_publishes_lateness_witness:
  "\<bar>(mono_11_8 - 21 / 2) - 13 / 10\<bar> \<le> 1 / 10 ^ 9 \<and>
   map event_type (new_events (hass timer0) (fire_time_event T1 mono_11_8 12 (21 / 2) timer0)) =
     [EVENT_TIME_CHANGED, EVENT_TIMER_OUT_OF_SYNC] \<and>
   data (new_events (hass timer0) (fire_time_event T1 mono_11_8 12 (21 / 2) timer0) ! 0) ATTR_NOW =
     Some (DateValue T1) \<and>
   seconds_of (new_events (hass timer0) (fire_time_event T1 mono_11_8 12 (21 / 2) timer0) ! 1) =
     Some (365917469723853 / 281474976710656)"
proof -
  have late: "\<bar>(mono_11_8 - 21 / 2) - 13 / 10\<bar> \<le> 1 / 10 ^ 9"
    by (simp add: mono_11_8_def)
  show ?thesis
    using late late_tick_publishes_lateness [OF late, of timer0 T1 12]
    by (simp add: Let_def late1_eq)
qed

text \<open>
  C1 as stated fails: \<open>timer0\<close> was scheduled for monotonic time 10.5 and wakes up at
  the double 11.8, that is 1.3 seconds late (1.3000000000000007 exactly), at time \<open>T1\<close>.
  The two events are published in the order claimed, but \<open>seconds\<close> is that lateness,
  more than a whole second away from 0.3.
\<close>

theorem late_tick_counterexample:
  "monotonic_1 reads1 - th_arg (loop_handles (hass timer0) ! 0) =
     365917469723853 / 281474976710656 \<and>
   \<bar>365917469723853 / 281474976710656 - 13 / 10\<bar> \<le> (1 / 10 ^ 9 :: rat) \<and>
   utcnow reads1 = T1 \<and>
   map event_type (new_events (hass timer0) (run_handle 0 reads1 timer0)) =
     [EVENT_TIME_CHANGED, EVENT_TIMER_OUT_OF_SYNC] \<and>
   map seconds_of (new_events (hass timer0) (run_handle 0 reads1 timer0)) =
     [None, Some (365917469723853 / 281474976710656)] \<and>
   \<not> \<bar>365917469723853 / 281474976710656 - 3 / 10\<bar> < (1 :: rat)"
  by (simp add: timer0_eq run_handle_def pending_def reads1_def new_events_fire
      seconds_of_def attrs_distinct new_events_def fire_time_event_bus_fired Let_def
      late1_eq mono_11_8_def)

subsection \<open>C2: the events of one wake-up\<close>

text \<open>
  Claim C2: every wake-up publishes exactly one \<open>time_changed\<close> event, as the first
  event of the tick; a \<open>timer_out_of_sync\<close> event is published as well if and only if
  the lateness the code computes, \<open>monotonic() - target\<close>, is strictly greater than 1,
  it comes second, and it carries that lateness under \<open>seconds\<close>.
\<close>

theorem tick_publishes:
  "let late = float_sub m1 target;
       new = new_events (hass s) (fire_time_event now m1 m2 target s)
   in map event_type new =
        (if late > 1 then [EVENT_TIME_CHANGED, EVENT_TIMER_OUT_OF_SYNC]
         else [EVENT_TIME_CHANGED]) \<and>
      count_list (map event_type new) EVENT_TIME_CHANGED = 1 \<and>
      (EVENT_TIMER_OUT_OF_SYNC \<in> set (map event_type new) \<longleftrightarrow> late > 1) \<and>
      (late > 1 \<longrightarrow> seconds_of (new ! 1) = Some late)"
  using event_types_distinct
  by (simp add: new_events_fire seconds_of_def Let_def)

text \<open>
  Two wake-ups of \<open>timer0\<close> for the target 10.5: at the double 11.8 (late by 1.3) both
  events are published; at 11.5 (late by exactly 1) only \<open>time_changed\<close> is.
\<close>

theorem tick_publishes_witness:
  "float_sub mono_11_8 (21 / 2) > 1 \<and>
   map event_type (new_events (hass timer0) (fire_time_event T1 mono_11_8 12 (21 / 2) timer0)) =
     [EVENT_TIME_CHANGED, EVENT_TIMER_OUT_OF_SYNC] \<and>
   seconds_of (new_events (hass timer0) (fire_time_event T1 mono_11_8 12 (21 / 2) timer0) ! 1) =
     Some (365917469723853 / 281474976710656) \<and>
   \<not> float_sub (23 / 2) (21 / 2) > 1 \<and>
   map event_type (new_events (hass timer0) (fire_time_event T1 (23 / 2) 12 (21 / 2) timer0)) =
     [EVENT_TIME_CHANGED]"
proof -
  have one: "float_sub (23 / 2) (21 / 2) = 1"
    by (simp add: float_sub_def binary64_1)
  show ?thesis
    using tick_publishes [of mono_11_8 "21 / 2" timer0 T1 12]
          tick_publishes [of "23 / 2" "21 / 2" timer0 T1 12]
    by (simp add: Let_def late1_eq one)
qed

subsection \<open>C3: one context for all ticks\<close>

text \<open>
  Claim C3: the context is created once, when the timer is created; however many
  wake-ups follow, the cell \<open>timer_context\<close> still holds that context and every event
  the timer has published carries it.
\<close>

theorem ticks_share_context:
  "let s0 = async_create_timer uuid now0 m0 h0;
       s = run_ticks steps s0
   in timer_context s0 = new_Context uuid \<and>
      timer_context s = new_Context uuid \<and>
      (\<forall>e \<in> set (new_events h0 s). event_context e = new_Context uuid)"
proof -
  define s0 where "s0 = async_create_timer uuid now0 m0 h0"
  have c: "timer_context s0 = new_Context uuid" by (simp add: s0_def)
  have "\<forall>e \<in> set (new_events (hass s0) (run_ticks steps s0)). event_context e = new_Context uuid"
  proof (rule run_ticks_events [OF _ c])
    fix now m1 m2 target and s' :: timer
    assume "timer_context s' = new_Context uuid"
    then show "\<forall>e \<in> set (new_events (hass s') (fire_time_event now m1 m2 target s')).
                 event_context e = new_Context uuid"
      by (simp add: new_events_fire)
  qed
  then have "\<forall>e \<in> set (new_events h0 (run_ticks steps s0)). event_context e = new_Context uuid"
    unfolding s0_def new_events_create [of h0 uuid now0 m0] .
  with c show ?thesis by (simp add: Let_def s0_def)
qed

text \<open>A run of two wake-ups of \<open>timer0\<close>: three events, all with the context of \<open>timer0\<close>.\<close>

theorem ticks_share_context_witness:
  "length (new_events hub0 (run_ticks [(0, reads1), (1, reads2)] timer0)) = 3 \<and>
   list_all (\<lambda>e. event_context e = new_Context 1)
     (new_events hub0 (run_ticks [(0, reads1), (1, reads2)] timer0))"
proof -
  have "length (map event_type (new_events hub0 (run_ticks [(0, reads1), (1, reads2)] timer0))) = 3"
    unfolding run_two_ticks_events by simp
  then show ?thesis
    using ticks_share_context [of 1 T0 10 hub0 "[(0, reads1), (1, reads2)]"]
    by (simp add: Let_def list_all_iff timer0_def)
qed

subsection \<open>C4: the delay of a scheduled tick\<close>

text \<open>
  Claim C4 says that a tick scheduled from a time \<open>now\<close> with \<open>m\<close> microseconds gets
  exactly the delay \<open>1 - m / 10^6\<close> seconds, so that the wake-up is on the next whole
  second. The code computes \<open>1 - (m / 10 ** 6)\<close> in binary64 arithmetic. C4 as amended:
  the handle that \<open>schedule_tick\<close> schedules and stores in the cell \<open>handle\<close> has the
  delay \<open>1 - (m / 10^6)\<close> as binary64 arithmetic computes it, which differs from
  \<open>1 - m / 10^6\<close> by at most \<open>2^(-52)\<close> seconds; so \<open>now\<close> plus the delay is the next
  whole second after \<open>now\<close> up to \<open>2^(-52)\<close> seconds.
\<close>

theorem schedule_tick_delay:
  assumes "Date_ok now"
  shows "let s' = schedule_tick m now s;
             h = length (loop_handles (hass s));
             th = loop_handles (hass s') ! h
         in handle s' = Some h \<and>
            loop_handles (hass s') = loop_handles (hass s) @ [th] \<and>
            pending th \<and>
            th_delay th = float_sub 1 (float_div (of_nat (microsecond now)) (10 ^ 6)) \<and>
            \<bar>th_delay th - (1 - of_nat (microsecond now) / 10 ^ 6)\<bar> \<le> 1 / 2 ^ 52 \<and>
            \<bar>timestamp now + th_delay th - of_int (\<lfloor>timestamp now\<rfloor> + 1)\<bar> \<le> 1 / 2 ^ 52"
proof -
  define d where "d = float_sub 1 (float_div (of_nat (microsecond now)) (10 ^ 6))"
  have m: "microsecond now < 10 ^ 6" using assms by (simp add: Date_ok_def)
  have near: "\<bar>d - (1 - of_nat (microsecond now) / 10 ^ 6)\<bar> \<le> 1 / 2 ^ 52"
    unfolding d_def using slp_seconds_bounds [OF m] by blast
  have lt: "rat_of_nat (microsecond now) / 10 ^ 6 < 1"
    using m by simp
  have ge: "0 \<le> rat_of_nat (microsecond now) / 10 ^ 6" by simp
  have fl: "\<lfloor>timestamp now\<rfloor> = whole_second now"
    unfolding timestamp_def using lt ge by linarith
  have "timestamp now + d - of_int (\<lfloor>timestamp now\<rfloor> + 1) =
        d - (1 - of_nat (microsecond now) / 10 ^ 6)"
    unfolding fl by (simp add: timestamp_def)
  then have al: "\<bar>timestamp now + d - of_int (\<lfloor>timestamp now\<rfloor> + 1)\<bar> \<le> 1 / 2 ^ 52"
    using near by (simp only:)
  show ?thesis
    unfolding Let_def using near al unfolding d_def
    by (simp add: pending_def)
qed

text \<open>
  Scheduling from \<open>T1\<close> (0.3 seconds into its second) on \<open>timer0\<close>: the new handle 1
  waits the double next below 0.7.
\<close>

theorem schedule_tick_delay_witness:
  "Date_ok T1 \<and>
   handle (schedule_tick 10 T1 timer0) = Some 1 \<and>
   th_delay (loop_handles (hass (schedule_tick 10 T1 timer0)) ! 1) =
     3152519739159347 / 4503599627370496 \<and>
   \<bar>3152519739159347 / 4503599627370496 - 7 / 10\<bar> \<le> (1 / 2 ^ 52 :: rat)"
proof -
  have ok: "Date_ok T1" by (simp add: Date_ok_def T1_def)
  show ?thesis
    using ok schedule_tick_delay [OF ok, of 10 timer0]
    by (simp add: Let_def timer0_eq slp_T1_eq)
qed

text \<open>
  C4 as stated fails at \<open>m = 300000\<close>: the delay scheduled from \<open>T1\<close> is the double
  3152519739159347 / 2^52, which is not \<open>1 - 300000 / 10^6 = 7 / 10\<close>, and \<open>T1\<close> plus
  that delay is not the whole second 1546225448.
\<close>

theorem schedule_tick_delay_counterexample:
  "microsecond T1 = 300000 \<and>
   handle (schedule_tick 10 T1 timer0) = Some 1 \<and>
   th_delay (loop_handles (hass (schedule_tick 10 T1 timer0)) ! 1) =
     3152519739159347 / 4503599627370496 \<and>
   3152519739159347 / 4503599627370496 \<noteq> (1 - 300000 / 10 ^ 6 :: rat) \<and>
   timestamp T1 + 3152519739159347 / 4503599627370496 \<noteq> 1546225448"
proof -
  have ts: "timestamp T1 = 15462254473 / 10" by (simp add: timestamp_def T1_def)
  have m: "microsecond T1 = 300000" by (simp add: T1_def)
  show ?thesis
    unfolding ts using m by (simp add: timer0_eq slp_T1_eq)
qed

subsection \<open>C5: the next tick is scheduled from the captured time\<close>

text \<open>
  Claim C5: a wake-up first publishes its events and then calls \<open>schedule_tick\<close> with
  the time captured at its start: there is a state in which all events of the tick are
  published and the loop is untouched, from which \<open>schedule_tick\<close> gives the final
  state. The new handle is the one in the cell \<open>handle\<close>; its delay and its target are
  computed from the captured time and the monotonic clock only, so they are the same
  whatever the intended fire time \<open>target\<close> and the lateness were.
\<close>

theorem tick_reschedules:
  "(\<exists>s_pub. bus_fired (hass s_pub) = bus_fired (hass (fire_time_event now m1 m2 target s)) \<and>
       loop_handles (hass s_pub) = loop_handles (hass s) \<and>
       handle s_pub = handle s \<and>
       fire_time_event now m1 m2 target s = schedule_tick m2 now s_pub) \<and>
   handle (fire_time_event now m1 m2 target s) = Some (length (loop_handles (hass s))) \<and>
   loop_handles (hass (fire_time_event now m1 m2 target s)) =
     loop_handles (hass s) @
       [\<lparr>th_delay = float_sub 1 (float_div (of_nat (microsecond now)) (10 ^ 6)),
         th_callback = FireTimeEvent,
         th_arg = float_add m2 (float_sub 1 (float_div (of_nat (microsecond now)) (10 ^ 6))),
         th_cancelled = False, th_ran = False\<rparr>] \<and>
   last (loop_handles (hass (fire_time_event now m1 m2 target s))) =
     last (loop_handles (hass (fire_time_event now m1' m2 target' s)))"
proof -
  define s1 where "s1 = s\<lparr>hass := async_fire EVENT_TIME_CHANGED [ATTR_NOW \<mapsto> DateValue now]
                             now (timer_context s) (hass s)\<rparr>"
  define s2 where "s2 = (if float_sub m1 target > 1
                then s1\<lparr>hass := async_fire EVENT_TIMER_OUT_OF_SYNC
                                   [ATTR_SECONDS \<mapsto> FloatValue (float_sub m1 target)]
                                   now (timer_context s1) (hass s1)\<rparr>
                else s1)"
  have eq: "fire_time_event now m1 m2 target s = schedule_tick m2 now s2"
    by (simp add: fire_time_event_def s1_def s2_def Let_def)
  have l: "loop_handles (hass s2) = loop_handles (hass s)"
    by (simp add: s2_def s1_def async_fire_def)
  have h: "handle s2 = handle s"
    by (simp add: s2_def s1_def)
  have b: "bus_fired (hass s2) = bus_fired (hass (fire_time_event now m1 m2 target s))"
    by (simp add: eq)
  from eq l h b have "\<exists>s_pub. bus_fired (hass s_pub) = bus_fired (hass (fire_time_event now m1 m2 target s)) \<and>
       loop_handles (hass s_pub) = loop_handles (hass s) \<and>
       handle s_pub = handle s \<and>
       fire_time_event now m1 m2 target s = schedule_tick m2 now s_pub"
    by blast
  then show ?thesis by simp
qed

subsection \<open>C6: stopping the timer\<close>

text \<open>
  Claim C6: \<open>stop_timer\<close> never raises. While the cell \<open>handle\<close> is \<open>None\<close> it changes
  nothing. When the cell refers to a handle, that handle is cancelled and nothing else
  changes, so the loop skips the handle from then on.
\<close>

theorem stop_timer_cancels:
  "(handle s = None \<longrightarrow> stop_timer ev s = Inr s) \<and>
   (\<forall>i. handle s = Some i \<and> i < length (loop_handles (hass s)) \<longrightarrow>
      (\<exists>s'. stop_timer ev s = Inr s' \<and>
            th_cancelled (loop_handles (hass s') ! i) \<and>
            \<not> pending (loop_handles (hass s') ! i) \<and>
            run_handle i r s' = s' \<and>
            length (loop_handles (hass s')) = length (loop_handles (hass s)) \<and>
            (\<forall>j. j \<noteq> i \<longrightarrow> loop_handles (hass s') ! j = loop_handles (hass s) ! j) \<and>
            handle s' = handle s \<and>
            timer_context s' = timer_context s \<and>
            bus_fired (hass s') = bus_fired (hass s) \<and>
            bus_listeners (hass s') = bus_listeners (hass s)))"
proof (intro conjI allI impI)
  assume "handle s = None"
  then show "stop_timer ev s = Inr s" by (simp add: stop_timer_def)
next
  fix i
  assume a: "handle s = Some i \<and> i < length (loop_handles (hass s))"
  define s' where "s' = s\<lparr>hass := (hass s)\<lparr>loop_handles :=
     (loop_handles (hass s))[i := (loop_handles (hass s) ! i)\<lparr>th_cancelled := True\<rparr>]\<rparr>\<rparr>"
  have st: "stop_timer ev s = Inr s'"
    using a by (simp add: stop_timer_def cancel_def s'_def)
  have c: "th_cancelled (loop_handles (hass s') ! i)"
    using a by (simp add: s'_def)
  then have np: "\<not> pending (loop_handles (hass s') ! i)"
    by (simp add: pending_def)
  then have skip: "run_handle i r s' = s'"
    by (simp add: run_handle_skip)
  have rest: "length (loop_handles (hass s')) = length (loop_handles (hass s)) \<and>
            (\<forall>j. j \<noteq> i \<longrightarrow> loop_handles (hass s') ! j = loop_handles (hass s) ! j) \<and>
            handle s' = handle s \<and>
            timer_context s' = timer_context s \<and>
            bus_fired (hass s') = bus_fired (hass s) \<and>
            bus_listeners (hass s') = bus_listeners (hass s)"
    by (simp add: s'_def)
  from st c np skip rest
  show "\<exists>s'. stop_timer ev s = Inr s' \<and>
            th_cancelled (loop_handles (hass s') ! i) \<and>
            \<not> pending (loop_handles (hass s') ! i) \<and>
            run_handle i r s' = s' \<and>
            length (loop_handles (hass s')) = length (loop_handles (hass s)) \<and>
            (\<forall>j. j \<noteq> i \<longrightarrow> loop_handles (hass s') ! j = loop_handles (hass s) ! j) \<and>
            handle s' = handle s \<and>
            timer_context s' = timer_context s \<and>
            bus_fired (hass s') = bus_fired (hass s) \<and>
            bus_listeners (hass s') = bus_listeners (hass s)"
    by blast
qed

text \<open>
  Stopping \<open>idle_timer\<close>, whose cell is \<open>None\<close>, returns it unchanged; stopping
  \<open>timer0\<close> cancels its pending handle 0, and a later wake-up of handle 0 does nothing.
\<close>

theorem stop_timer_cancels_witness:
  "handle idle_timer = None \<and>
   stop_timer stop_event idle_timer = Inr idle_timer \<and>
   handle timer0 = Some 0 \<and>
   0 < length (loop_handles (hass timer0)) \<and>
   pending (loop_handles (hass timer0) ! 0) \<and>
   (\<exists>s'. stop_timer stop_event timer0 = Inr s' \<and>
         th_cancelled (loop_handles (hass s') ! 0) \<and>
         \<not> pending (loop_handles (hass s') ! 0) \<and>
         run_handle 0 reads1 s' = s')"
proof -
  have a: "handle idle_timer = None" by (simp add: idle_timer_def)
  have b: "handle timer0 = Some 0 \<and> 0 < length (loop_handles (hass timer0))"
    by (simp add: timer0_eq)
  have c: "pending (loop_handles (hass timer0) ! 0)"
    by (simp add: timer0_eq pending_def)
  from a stop_timer_cancels [of idle_timer stop_event reads1]
  have d: "stop_timer stop_event idle_timer = Inr idle_timer" by blast
  from b stop_timer_cancels [of timer0 stop_event reads1]
  have e: "\<exists>s'. stop_timer stop_event timer0 = Inr s' \<and>
         th_cancelled (loop_handles (hass s') ! 0) \<and>
         \<not> pending (loop_handles (hass s') ! 0) \<and>
         run_handle 0 reads1 s' = s'" by blast
  from a b c d e show ?thesis by blast
qed

subsection \<open>C7: the keys of the data mappings\<close>

text \<open>
  Claim C7: every event the timer publishes, in any run, is a \<open>time_changed\<close> event
  whose data mapping has exactly the key \<open>now\<close>, or a \<open>timer_out_of_sync\<close> event whose
  data mapping has exactly the key \<open>seconds\<close>.
\<close>

theorem timer_event_keys:
  "let s0 = async_create_timer uuid now0 m0 h0;
       s = run_ticks steps s0
   in \<forall>e \<in> set (new_events h0 s).
        (event_type e = EVENT_TIME_CHANGED \<or> event_type e = EVENT_TIMER_OUT_OF_SYNC) \<and>
        (event_type e = EVENT_TIME_CHANGED \<longrightarrow> dom (data e) = {ATTR_NOW}) \<and>
        (event_type e = EVENT_TIMER_OUT_OF_SYNC \<longrightarrow> dom (data e) = {ATTR_SECONDS})"
proof -
  define s0 where "s0 = async_create_timer uuid now0 m0 h0"
  define P where "P = (\<lambda>e :: Event.
        (event_type e = EVENT_TIME_CHANGED \<or> event_type e = EVENT_TIMER_OUT_OF_SYNC) \<and>
        (event_type e = EVENT_TIME_CHANGED \<longrightarrow> dom (data e) = {ATTR_NOW}) \<and>
        (event_type e = EVENT_TIMER_OUT_OF_SYNC \<longrightarrow> dom (data e) = {ATTR_SECONDS}))"
  have "\<forall>e \<in> set (new_events (hass s0) (run_ticks steps s0)). P e"
  proof (rule run_ticks_events [OF _ refl])
    fix now m1 m2 target and s' :: timer
    show "\<forall>e \<in> set (new_events (hass s') (fire_time_event now m1 m2 target s')). P e"
      using event_types_distinct by (simp add: new_events_fire P_def)
  qed
  then have "\<forall>e \<in> set (new_events h0 (run_ticks steps s0)). P e"
    unfolding s0_def new_events_create [of h0 uuid now0 m0] .
  then show ?thesis by (simp add: Let_def s0_def P_def)
qed

text \<open>The three events of the run of two wake-ups of \<open>timer0\<close>.\<close>

theorem timer_event_keys_witness:
  "map event_type (new_events hub0 (run_ticks [(0, reads1), (1, reads2)] timer0)) =
     [EVENT_TIME_CHANGED, EVENT_TIMER_OUT_OF_SYNC, EVENT_TIME_CHANGED] \<and>
   list_all (\<lambda>e.
        (event_type e = EVENT_TIME_CHANGED \<or> event_type e = EVENT_TIMER_OUT_OF_SYNC) \<and>
        (event_type e = EVENT_TIME_CHANGED \<longrightarrow> dom (data e) = {ATTR_NOW}) \<and>
        (event_type e = EVENT_TIMER_OUT_OF_SYNC \<longrightarrow> dom (data e) = {ATTR_SECONDS}))
     (new_events hub0 (run_ticks [(0, reads1), (1, reads2)] timer0))"
proof (rule conjI)
  show "map event_type (new_events hub0 (run_ticks [(0, reads1), (1, reads2)] timer0)) =
     [EVENT_TIME_CHANGED, EVENT_TIMER_OUT_OF_SYNC, EVENT_TIME_CHANGED]"
    by (rule run_two_ticks_events)
  show "list_all (\<lambda>e.
        (event_type e = EVENT_TIME_CHANGED \<or> event_type e = EVENT_TIMER_OUT_OF_SYNC) \<and>
        (event_type e = EVENT_TIME_CHANGED \<longrightarrow> dom (data e) = {ATTR_NOW}) \<and>
        (event_type e = EVENT_TIMER_OUT_OF_SYNC \<longrightarrow> dom (data e) = {ATTR_SECONDS}))
     (new_events hub0 (run_ticks [(0, reads1), (1, reads2)] timer0))"
    unfolding list_all_iff timer0_def
    using timer_event_keys [of 1 T0 10 hub0 "[(0, reads1), (1, reads2)]", unfolded Let_def] .
qed

subsection \<open>C8: one captured time per tick\<close>

text \<open>
  Claim C8: all events of a wake-up have the time captured at its start as their
  \<open>time_fired\<close>, and the \<open>time_changed\<close> event, the first of them, carries the same
  time under \<open>now\<close>.
\<close>

theorem tick_times_agree:
  "let new = new_events (hass s) (fire_time_event now m1 m2 target s)
   in new \<noteq> [] \<and>
      event_type (hd new) = EVENT_TIME_CHANGED \<and>
      data (hd new) ATTR_NOW = Some (DateValue now) \<and>
      (\<forall>e \<in> set new. time_fired e = now)"
  by (simp add: new_events_fire Let_def)

text \<open>The late wake-up of \<open>timer0\<close> at time \<open>T1\<close>, with its two events.\<close>

theorem tick_times_agree_witness:
  "map time_fired (new_events (hass timer0) (fire_time_event T1 mono_11_8 12 (21 / 2) timer0)) =
     [T1, T1] \<and>
   data (hd (new_events (hass timer0) (fire_time_event T1 mono_11_8 12 (21 / 2) timer0))) ATTR_NOW =
     Some (DateValue T1)"
proof -
  have len: "length (new_events (hass timer0) (fire_time_event T1 mono_11_8 12 (21 / 2) timer0)) = 2"
    by (simp add: new_events_fire late1_eq)
  have "\<forall>e \<in> set (new_events (hass timer0) (fire_time_event T1 mono_11_8 12 (21 / 2) timer0)).
          time_fired e = T1"
    using tick_times_agree [of timer0 T1 mono_11_8 12 "21 / 2"] by (simp add: Let_def)
  then have "map time_fired (new_events (hass timer0) (fire_time_event T1 mono_11_8 12 (21 / 2) timer0)) =
     replicate (length (new_events (hass timer0) (fire_time_event T1 mono_11_8 12 (21 / 2) timer0))) T1"
    by (simp add: map_replicate_const [symmetric] cong: map_cong)
  then show ?thesis
    using len tick_times_agree [of timer0 T1 mono_11_8 12 "21 / 2"]
    by (simp add: Let_def numeral_2_eq_2)
qed

subsection \<open>C9: the delay is positive and at most one second\<close>

text \<open>
  Claim C9: the handle that \<open>schedule_tick\<close> schedules and stores in the cell \<open>handle\<close>
  has a delay, as binary64 arithmetic computes it, that is greater than 0 and at most
  1; from a time with 0 microseconds it is a full second.
\<close>

theorem schedule_tick_delay_bounds:
  assumes "Date_ok now"
  shows "let s' = schedule_tick m now s;
             h = length (loop_handles (hass s));
             d = th_delay (loop_handles (hass s') ! h)
         in handle s' = Some h \<and> h < length (loop_handles (hass s')) \<and>
            0 < d \<and> d \<le> 1 \<and> (microsecond now = 0 \<longrightarrow> d = 1)"
proof -
  have m: "microsecond now < 10 ^ 6" using assms by (simp add: Date_ok_def)
  show ?thesis
    using slp_seconds_bounds [OF m] by (simp add: Let_def)
qed

text \<open>
  The two ends, scheduled on \<open>timer0\<close> as handle 1: 0 microseconds give the delay 1,
  and 999999 microseconds the positive delay 9007199255 / 2^53, a little above
  \<open>10^(-6)\<close>.
\<close>

theorem schedule_tick_delay_bounds_witness:
  "Date_ok \<lparr>whole_second = 5, microsecond = 0\<rparr> \<and>
   handle (schedule_tick 10 \<lparr>whole_second = 5, microsecond = 0\<rparr> timer0) = Some 1 \<and>
   th_delay (loop_handles (hass
      (schedule_tick 10 \<lparr>whole_second = 5, microsecond = 0\<rparr> timer0)) ! 1) = 1 \<and>
   Date_ok \<lparr>whole_second = 5, microsecond = 999999\<rparr> \<and>
   th_delay (loop_handles (hass
      (schedule_tick 10 \<lparr>whole_second = 5, microsecond = 999999\<rparr> timer0)) ! 1) =
     9007199255 / 9007199254740992 \<and>
   (0 :: rat) < 9007199255 / 9007199254740992"
proof -
  have a: "Date_ok \<lparr>whole_second = 5, microsecond = 0\<rparr>" by (simp add: Date_ok_def)
  have b: "Date_ok \<lparr>whole_second = 5, microsecond = 999999\<rparr>" by (simp add: Date_ok_def)
  have d: "float_sub 1 (float_div 999999 1000000) = 9007199255 / 9007199254740992"
    by (simp add: float_sub_def float_div_def binary64_999999 binary64_slp_999999)
  show ?thesis
    using a b schedule_tick_delay_bounds [OF a, of 10 timer0]
      schedule_tick_delay_bounds [OF b, of 10 timer0]
    by (simp add: Let_def timer0_eq d)
qed

subsection \<open>C10: the first tick, and the handle the stop handler cancels\<close>

text \<open>
  Claim C10: \<open>_async_create_timer\<close> registers \<open>stop_timer\<close> as a one-shot listener of
  \<open>homeassistant_stop\<close> and schedules the first tick in the same call, without any event
  having been fired. From then on, on any hub and after any run of wake-ups, the cell
  \<open>handle\<close> refers to the handle scheduled last and that handle is pending; \<open>stop_timer\<close>
  does not raise and cancels exactly that handle, so the loop skips it from then on.
\<close>

theorem create_timer_schedules:
  "let s0 = async_create_timer uuid now0 m0 h0
   in bus_listeners (hass s0) =
        bus_listeners h0 @
          [\<lparr>ls_event_type = EVENT_HOMEASSISTANT_STOP, ls_callback = StopTimer, ls_once = True\<rparr>] \<and>
      bus_fired (hass s0) = bus_fired h0 \<and>
      loop_handles (hass s0) =
        loop_handles h0 @
          [\<lparr>th_delay = float_sub 1 (float_div (of_nat (microsecond now0)) (10 ^ 6)),
            th_callback = FireTimeEvent,
            th_arg = float_add m0 (float_sub 1 (float_div (of_nat (microsecond now0)) (10 ^ 6))),
            th_cancelled = False, th_ran = False\<rparr>] \<and>
      handle s0 = Some (length (loop_handles h0)) \<and>
      (\<forall>steps. let s = run_ticks steps s0; n = length (loop_handles (hass s))
         in 0 < n \<and> handle s = Some (n - 1) \<and> pending (loop_handles (hass s) ! (n - 1)) \<and>
            (\<exists>s'. stop_timer ev s = Inr s' \<and>
                  length (loop_handles (hass s')) = n \<and>
                  th_cancelled (loop_handles (hass s') ! (n - 1)) \<and>
                  \<not> pending (loop_handles (hass s') ! (n - 1)) \<and>
                  run_handle (n - 1) r s' = s'))"
proof -
  define s0 where "s0 = async_create_timer uuid now0 m0 h0"
  have run: "let s = run_ticks steps s0; n = length (loop_handles (hass s))
         in 0 < n \<and> handle s = Some (n - 1) \<and> pending (loop_handles (hass s) ! (n - 1)) \<and>
            (\<exists>s'. stop_timer ev s = Inr s' \<and>
                  length (loop_handles (hass s')) = n \<and>
                  th_cancelled (loop_handles (hass s') ! (n - 1)) \<and>
                  \<not> pending (loop_handles (hass s') ! (n - 1)) \<and>
                  run_handle (n - 1) r s' = s')" for steps
  proof -
    have "handle_latest s0" unfolding s0_def by (rule handle_latest_create)
    then have inv: "handle_latest (run_ticks steps s0)" by (rule handle_latest_run_ticks)
    have a: "0 < length (loop_handles (hass (run_ticks steps s0)))"
      "handle (run_ticks steps s0) = Some (length (loop_handles (hass (run_ticks steps s0))) - 1)"
      "pending (loop_handles (hass (run_ticks steps s0)) !
         (length (loop_handles (hass (run_ticks steps s0))) - 1))"
      using inv by (auto simp: handle_latest_def Let_def)
    show ?thesis
      unfolding Let_def using a handle_latest_stop [OF inv, of ev r] by blast
  qed
  show ?thesis
    unfolding Let_def s0_def [symmetric]
    using run by (simp add: s0_def Let_def)
qed

text \<open>
  \<open>timer0\<close> on the empty hub: handle 0 is in the cell after the creation; after two
  wake-ups handle 2 is in the cell and pending, and stopping cancels it. A second timer
  created on the hub of \<open>timer0\<close>, where handle 0 is pending: its cell holds the new
  handle 1.
\<close>

theorem create_timer_schedules_witness:
  "handle timer0 = Some 0 \<and>
   pending (loop_handles (hass timer0) ! 0) \<and>
   length (loop_handles (hass (run_ticks [(0, reads1), (1, reads2)] timer0))) = 3 \<and>
   handle (run_ticks [(0, reads1), (1, reads2)] timer0) = Some 2 \<and>
   pending (loop_handles (hass (run_ticks [(0, reads1), (1, reads2)] timer0)) ! 2) \<and>
   (\<exists>s'. stop_timer stop_event (run_ticks [(0, reads1), (1, reads2)] timer0) = Inr s' \<and>
         th_cancelled (loop_handles (hass s') ! 2) \<and>
         \<not> pending (loop_handles (hass s') ! 2) \<and>
         run_handle 2 reads2 s' = s') \<and>
   pending (loop_handles (hass timer0) ! 0) \<and>
   handle (async_create_timer 2 T0 10 (hass timer0)) = Some 1 \<and>
   pending (loop_handles (hass (async_create_timer 2 T0 10 (hass timer0))) ! 1)"
proof -
  have len: "length (loop_handles (hass (run_ticks [(0, reads1), (1, reads2)] timer0))) = 3"
    by (simp add: timer0_eq run_handle_def pending_def reads1_def reads2_def Let_def)
  note inst = create_timer_schedules [of 1 T0 10 hub0 stop_event reads2, unfolded Let_def,
      folded timer0_def]
  then have all: "\<forall>steps.
      0 < length (loop_handles (hass (run_ticks steps timer0))) \<and>
      handle (run_ticks steps timer0) =
        Some (length (loop_handles (hass (run_ticks steps timer0))) - 1) \<and>
      pending (loop_handles (hass (run_ticks steps timer0)) !
        (length (loop_handles (hass (run_ticks steps timer0))) - 1)) \<and>
      (\<exists>s'. stop_timer stop_event (run_ticks steps timer0) = Inr s' \<and>
            length (loop_handles (hass s')) = length (loop_handles (hass (run_ticks steps timer0))) \<and>
            th_cancelled (loop_handles (hass s') !
              (length (loop_handles (hass (run_ticks steps timer0))) - 1)) \<and>
            \<not> pending (loop_handles (hass s') !
              (length (loop_handles (hass (run_ticks steps timer0))) - 1)) \<and>
            run_handle (length (loop_handles (hass (run_ticks steps timer0))) - 1) reads2 s' = s')"
    by blast
  have two: "handle (run_ticks [(0, reads1), (1, reads2)] timer0) = Some 2 \<and>
      pending (loop_handles (hass (run_ticks [(0, reads1), (1, reads2)] timer0)) ! 2) \<and>
      (\<exists>s'. stop_timer stop_event (run_ticks [(0, reads1), (1, reads2)] timer0) = Inr s' \<and>
            th_cancelled (loop_handles (hass s') ! 2) \<and>
            \<not> pending (loop_handles (hass s') ! 2) \<and>
            run_handle 2 reads2 s' = s')"
    using all [rule_format, of "[(0, reads1), (1, reads2)]"] unfolding len by auto
  have zero: "handle timer0 = Some 0 \<and> pending (loop_handles (hass timer0) ! 0)"
    by (simp add: timer0_eq pending_def)
  have second: "handle (async_create_timer 2 T0 10 (hass timer0)) = Some 1 \<and>
      pending (loop_handles (hass (async_create_timer 2 T0 10 (hass timer0))) ! 1)"
    using create_timer_schedules [of 2 T0 10 "hass timer0" stop_event reads2, unfolded Let_def]
    by (simp add: timer0_eq pending_def)
  show ?thesis
    using len two zero second by simp
qed

end
